theory Spec2Isabelle
  imports Main "HOL-Library.Sublist"
begin

section \<open>The resolver client and the configuration loader (auth.ts, config.ts)\<close>

text \<open>
  A thrown JavaScript value. \<open>Error m\<close> is \<^verbatim>\<open>new Error(m)\<close>; \<open>AxiosError st m\<close> is an
  error for which \<^verbatim>\<open>axios.isAxiosError\<close> holds, with the status of its \<^verbatim>\<open>response\<close>
  (\<open>None\<close> when the request got no response) and its message; \<open>OtherError m\<close> is any
  other thrown value (a system error of \<^verbatim>\<open>readFile\<close>, a \<^verbatim>\<open>SyntaxError\<close> of
  \<^verbatim>\<open>JSON.parse\<close>, a \<^verbatim>\<open>TypeError\<close>).
\<close>

datatype js_error =
    Error string
  | AxiosError "nat option" string
  | OtherError string

datatype transport_config =
    TransportConfigStdio string "string list option" "string list option"
  | TransportConfigSSE string

datatype server_config = ServerConfig (name: string) (config_transport: transport_config)

datatype config = Config (servers: "server_config list")

datatype auth_response =
  AuthResponse (success: bool) (response_servers: "server_config list") (message: "string option")

text \<open>
  What the program does to the outside world, in the order it does it. The functions
  below return the list of their effects next to their result.
\<close>

datatype effect =
    HttpGet string string
  | ReadFile string
  | ConsoleLog string
  | ConsoleError string js_error
  | OpenBackend string
  | ServerConnectStdio
  | ServerConnectSse nat
  | OnSigint
  | Cleanup
  | ServerClose
  | HandlePostMessage nat string
  | UnhandledRejection js_error
  | ProcessExit nat

text \<open>
  The world the program runs in: the environment variables it reads, the working
  directory, \<^verbatim>\<open>path.resolve\<close>, and the outcome of each call that leaves the program
  (\<^verbatim>\<open>axios.get\<close> by URL and Authorization header, \<^verbatim>\<open>readFile\<close> by path,
  \<^verbatim>\<open>JSON.parse\<close> by text). A thrown value is \<open>Inl\<close>.
\<close>

record environment =
  env_CLIENT_API_URL :: "string option"
  env_MCP_CONFIG_PATH :: "string option"
  env_MCP_API_KEY :: "string option"
  env_KEEP_SERVER_OPEN :: "string option"
  cwd :: "js_error + string"
  resolve :: "string \<Rightarrow> string \<Rightarrow> string"
  axios_get :: "string \<Rightarrow> string \<Rightarrow> js_error + auth_response"
  readFile :: "string \<Rightarrow> js_error + string"
  JSON_parse :: "string \<Rightarrow> js_error + config"

text \<open>JavaScript truthiness of an optional string: defined and not empty.\<close>

definition truthy :: "string option \<Rightarrow> bool" where
  "truthy v = (case v of None \<Rightarrow> False | Some s \<Rightarrow> s \<noteq> [])"

text \<open>\<^verbatim>\<open>a || b\<close> on an optional string \<open>a\<close>.\<close>

definition js_or :: "string option \<Rightarrow> string \<Rightarrow> string" where
  "js_or a b = (case a of None \<Rightarrow> b | Some s \<Rightarrow> if s = [] then b else s)"

definition CLIENT_API_URL :: "environment \<Rightarrow> string" where
  "CLIENT_API_URL env = js_or (env_CLIENT_API_URL env) ''http://localhost:8000/api''"

text \<open>The \<^verbatim>\<open>catch\<close> block of \<^verbatim>\<open>authenticateAndGetServers\<close>: what it throws for a caught value.\<close>

fun auth_catch :: "js_error \<Rightarrow> js_error" where
  "auth_catch (AxiosError st m) =
     (if st = Some 401 then Error ''Invalid API key''
      else if st = Some 403 then Error ''No permission''
      else Error (''Auth error: '' @ m))"
| "auth_catch e = e"

definition authenticateAndGetServers ::
  "environment \<Rightarrow> string \<Rightarrow> (js_error + server_config list) \<times> effect list" where
  "authenticateAndGetServers env apiKey =
     (let url = CLIENT_API_URL env @ ''/servers'';
          authorization = ''Bearer '' @ apiKey
      in (case axios_get env url authorization of
            Inl e \<Rightarrow> Inl (auth_catch e)
          | Inr response \<Rightarrow>
              if \<not> success response
              then Inl (auth_catch (Error (js_or (message response) ''Auth failed'')))
              else Inr (response_servers response),
          [HttpGet url authorization]))"

text \<open>
  \<^verbatim>\<open>process.env.MCP_CONFIG_PATH || resolve(process.cwd(), 'config.json')\<close>: the right
  operand is evaluated only when the left one is falsy, and \<^verbatim>\<open>process.cwd()\<close> can throw.
\<close>

definition configPath :: "environment \<Rightarrow> js_error + string" where
  "configPath env =
     (let fallback = (case cwd env of
                        Inl e \<Rightarrow> Inl e
                      | Inr d \<Rightarrow> Inr (resolve env d ''config.json''))
      in (case env_MCP_CONFIG_PATH env of
            None \<Rightarrow> fallback
          | Some p \<Rightarrow> if p = [] then fallback else Inr p))"

text \<open>The second \<^verbatim>\<open>try\<close> block of \<^verbatim>\<open>loadConfig\<close>: the static configuration file.\<close>

definition loadConfigFile :: "environment \<Rightarrow> (js_error + config) \<times> effect list" where
  "loadConfigFile env =
     (case configPath env of
        Inl e \<Rightarrow> (Inr (Config []), [ConsoleError ''Error in loading config.json:'' e])
      | Inr p \<Rightarrow>
          (case readFile env p of
             Inl e \<Rightarrow>
               (Inr (Config []),
                [ConsoleLog (''Load config from: '' @ p), ReadFile p,
                 ConsoleError ''Error in loading config.json:'' e])
           | Inr fileContents \<Rightarrow>
               (case JSON_parse env fileContents of
                  Inl e \<Rightarrow>
                    (Inr (Config []),
                     [ConsoleLog (''Load config from: '' @ p), ReadFile p,
                      ConsoleError ''Error in loading config.json:'' e])
                | Inr parsed \<Rightarrow>
                    (Inr parsed, [ConsoleLog (''Load config from: '' @ p), ReadFile p]))))"

definition loadConfig ::
  "environment \<Rightarrow> string option \<Rightarrow> (js_error + config) \<times> effect list" where
  "loadConfig env apiKey =
     (case apiKey of
        None \<Rightarrow> loadConfigFile env
      | Some k \<Rightarrow>
          if k = [] then loadConfigFile env
          else (case authenticateAndGetServers env k of
                  (Inr srvs, effs) \<Rightarrow> (Inr (Config srvs), effs)
                | (Inl e, effs) \<Rightarrow> (Inl e, effs @ [ConsoleError ''Auth error with API key:'' e])))"

text \<open>
  The three failures the resolver client raises for a failed request, by the message of
  the \<^verbatim>\<open>Error\<close> it throws: \<^verbatim>\<open>Invalid API key\<close> (the invalid credential),
  \<^verbatim>\<open>No permission\<close> (forbidden) and \<^verbatim>\<open>Auth error: ...\<close> (the resolver is unavailable).
\<close>

definition typed_failure :: "js_error \<Rightarrow> bool" where
  "typed_failure e =
     (case e of
        Error m \<Rightarrow> m = ''Invalid API key'' \<or> m = ''No permission'' \<or> prefix ''Auth error: '' m
      | _ \<Rightarrow> False)"

section \<open>The two bootstraps (index.ts, sse.ts)\<close>

text \<open>
  \<^verbatim>\<open>createServer\<close> resolves to \<^verbatim>\<open>{ server, cleanup }\<close>. Both are opaque to the
  bootstraps; what matters to them is whether \<^verbatim>\<open>server.connect\<close>, \<^verbatim>\<open>cleanup\<close> and
  \<^verbatim>\<open>server.close\<close> resolve (\<open>None\<close>) or reject (\<open>Some e\<close>).
\<close>

datatype server_handle =
  ServerHandle (connect_fails: "js_error option") (cleanup_fails: "js_error option")
    (close_fails: "js_error option")

datatype proc_status = Exited nat | KilledBySignal

text \<open>
  What can happen to a bootstrap while it runs: the pending call of \<^verbatim>\<open>createServer\<close>
  has an effect, its promise settles, the promise of \<^verbatim>\<open>server.connect\<close> settles, the
  process receives SIGINT, Express calls the handler of \<^verbatim>\<open>GET /sse\<close> (for the numbered
  response object) or of \<^verbatim>\<open>POST /message\<close>, or the server calls \<^verbatim>\<open>onclose\<close>.
  A handler's body runs to its end before the next event is taken.
\<close>

datatype event =
    CreateServerDoes effect
  | CreateServerSettled "js_error + server_handle"
  | ConnectSettled
  | Sigint
  | GetSse nat
  | PostMessage string
  | ServerOnClose

subsection \<open>index.ts: the stdio bootstrap\<close>

datatype stdio_phase =
    AwaitCreateServer
  | AwaitConnect server_handle
  | Serving server_handle
  | StdioStopped proc_status

record stdio_state =
  stdio_phase :: stdio_phase
  stdio_log :: "effect list"

definition stdio_init :: stdio_state where
  "stdio_init = \<lparr>stdio_phase = AwaitCreateServer, stdio_log = []\<rparr>"

text \<open>The \<^verbatim>\<open>catch\<close> block of \<^verbatim>\<open>main\<close>.\<close>

definition main_catch :: "stdio_state \<Rightarrow> js_error \<Rightarrow> stdio_state" where
  "main_catch s e =
     s\<lparr>stdio_phase := StdioStopped (Exited 1),
       stdio_log := stdio_log s @ [ConsoleError ''Server error:'' e, ProcessExit 1]\<rparr>"

text \<open>
  The SIGINT listener of \<^verbatim>\<open>main\<close>:
  \<^verbatim>\<open>await cleanup(); await server.close(); process.exit(0)\<close>.
  Nothing in the program catches a rejection of its awaits: the listener stops there,
  the log records the rejection, and Node ends the process, as it does on every
  unhandled rejection, with exit code 1.
\<close>

definition main_on_sigint :: "server_handle \<Rightarrow> stdio_state \<Rightarrow> stdio_state" where
  "main_on_sigint h s =
     (case cleanup_fails h of
        Some e \<Rightarrow>
          s\<lparr>stdio_phase := StdioStopped (Exited 1),
            stdio_log := stdio_log s @ [Cleanup, UnhandledRejection e]\<rparr>
      | None \<Rightarrow>
          (case close_fails h of
             Some e \<Rightarrow>
               s\<lparr>stdio_phase := StdioStopped (Exited 1),
                 stdio_log := stdio_log s @ [Cleanup, ServerClose, UnhandledRejection e]\<rparr>
           | None \<Rightarrow>
               s\<lparr>stdio_phase := StdioStopped (Exited 0),
                 stdio_log := stdio_log s @ [Cleanup, ServerClose, ProcessExit 0]\<rparr>))"

text \<open>
  One event of \<^verbatim>\<open>main\<close>. Until \<^verbatim>\<open>process.on("SIGINT", ...)\<close> has run the process has
  no listener for SIGINT, and the signal ends it the default way. Nothing outside the
  \<^verbatim>\<open>try\<close> block of \<^verbatim>\<open>main\<close> throws, so the \<^verbatim>\<open>catch\<close> on the promise of
  \<^verbatim>\<open>main\<close> is never entered.
\<close>

fun stdio_step :: "stdio_state \<Rightarrow> event \<Rightarrow> stdio_state" where
  "stdio_step s (CreateServerDoes eff) =
     (case stdio_phase s of
        AwaitCreateServer \<Rightarrow> s\<lparr>stdio_log := stdio_log s @ [eff]\<rparr>
      | _ \<Rightarrow> s)"
| "stdio_step s (CreateServerSettled r) =
     (case stdio_phase s of
        AwaitCreateServer \<Rightarrow>
          (case r of
             Inl e \<Rightarrow> main_catch s e
           | Inr h \<Rightarrow>
               s\<lparr>stdio_phase := AwaitConnect h,
                 stdio_log := stdio_log s @ [ServerConnectStdio]\<rparr>)
      | _ \<Rightarrow> s)"
| "stdio_step s ConnectSettled =
     (case stdio_phase s of
        AwaitConnect h \<Rightarrow>
          (case connect_fails h of
             Some e \<Rightarrow> main_catch s e
           | None \<Rightarrow> s\<lparr>stdio_phase := Serving h, stdio_log := stdio_log s @ [OnSigint]\<rparr>)
      | _ \<Rightarrow> s)"
| "stdio_step s Sigint =
     (case stdio_phase s of
        AwaitCreateServer \<Rightarrow> s\<lparr>stdio_phase := StdioStopped KilledBySignal\<rparr>
      | AwaitConnect h \<Rightarrow> s\<lparr>stdio_phase := StdioStopped KilledBySignal\<rparr>
      | Serving h \<Rightarrow> main_on_sigint h s
      | StdioStopped st \<Rightarrow> s)"
| "stdio_step s _ = s"

definition stdio_run :: "event list \<Rightarrow> stdio_state" where
  "stdio_run evs = foldl stdio_step stdio_init evs"

subsection \<open>sse.ts: the SSE bootstrap\<close>

datatype sse_phase =
    Initialising
  | Listening server_handle
  | SseStopped proc_status

text \<open>
  The module's two globals (\<open>None\<close> is \<^verbatim>\<open>undefined\<close>; a transport is named by the number
  of the response object it was built on), whether \<^verbatim>\<open>server.onclose\<close> has been
  assigned, and the log.
\<close>

record sse_state =
  sse_phase :: sse_phase
  transport :: "nat option"
  cleanupFunction :: "server_handle option"
  onclose_set :: bool
  sse_log :: "effect list"

definition sse_init :: sse_state where
  "sse_init =
     \<lparr>sse_phase = Initialising, transport = None, cleanupFunction = None,
      onclose_set = False, sse_log = []\<rparr>"

definition undefined_transport :: js_error where
  "undefined_transport = OtherError ''TypeError: Cannot read properties of undefined''"

text \<open>
  The module-level SIGINT listener:
  \<^verbatim>\<open>if (cleanupFunction) { await cleanupFunction(); } process.exit(0)\<close>.
  A rejection of the cleanup is unhandled and ends the process with exit code 1.
\<close>

definition sse_on_sigint :: "sse_state \<Rightarrow> sse_state" where
  "sse_on_sigint s =
     (case cleanupFunction s of
        None \<Rightarrow>
          s\<lparr>sse_phase := SseStopped (Exited 0), sse_log := sse_log s @ [ProcessExit 0]\<rparr>
      | Some h \<Rightarrow>
          (case cleanup_fails h of
             Some e \<Rightarrow>
               s\<lparr>sse_phase := SseStopped (Exited 1),
                 sse_log := sse_log s @ [Cleanup, UnhandledRejection e]\<rparr>
           | None \<Rightarrow>
               s\<lparr>sse_phase := SseStopped (Exited 0),
                 sse_log := sse_log s @ [Cleanup, ProcessExit 0]\<rparr>))"

text \<open>
  The handler of \<^verbatim>\<open>GET /sse\<close>, for the response object \<open>r\<close>. The global is assigned
  before \<^verbatim>\<open>server.connect\<close> is awaited; a rejection of the connect is unhandled and
  ends the process with exit code 1.
\<close>

definition get_sse :: "server_handle \<Rightarrow> nat \<Rightarrow> sse_state \<Rightarrow> sse_state" where
  "get_sse h r s =
     (case connect_fails h of
        Some e \<Rightarrow>
          s\<lparr>sse_phase := SseStopped (Exited 1), transport := Some r,
            sse_log := sse_log s @
              [ConsoleLog ''Got connection'', ServerConnectSse r, UnhandledRejection e]\<rparr>
      | None \<Rightarrow>
          s\<lparr>transport := Some r, onclose_set := True,
            sse_log := sse_log s @ [ConsoleLog ''Got connection'', ServerConnectSse r]\<rparr>)"

text \<open>
  The handler of \<^verbatim>\<open>POST /message\<close>: \<^verbatim>\<open>await transport.handlePostMessage(req, res)\<close>.
  On the undefined global the call throws a \<^verbatim>\<open>TypeError\<close>; the rejection is unhandled
  and ends the process with exit code 1.
\<close>

definition post_message :: "string \<Rightarrow> sse_state \<Rightarrow> sse_state" where
  "post_message m s =
     (case transport s of
        None \<Rightarrow>
          s\<lparr>sse_phase := SseStopped (Exited 1),
            sse_log := sse_log s @
              [ConsoleLog ''Got message'', UnhandledRejection undefined_transport]\<rparr>
      | Some t \<Rightarrow>
          s\<lparr>sse_log := sse_log s @ [ConsoleLog ''Got message'', HandlePostMessage t m]\<rparr>)"

text \<open>
  The \<^verbatim>\<open>server.onclose\<close> callback assigned by the handler of \<^verbatim>\<open>GET /sse\<close>. A
  rejection of its awaits is unhandled and ends the process with exit code 1.
\<close>

definition server_onclose :: "environment \<Rightarrow> server_handle \<Rightarrow> sse_state \<Rightarrow> sse_state" where
  "server_onclose env h s =
     (if env_KEEP_SERVER_OPEN env = Some ''1''
      then s\<lparr>sse_log := sse_log s @ [ConsoleLog ''Server closed'']\<rparr>
      else (case cleanup_fails h of
              Some e \<Rightarrow>
                s\<lparr>sse_phase := SseStopped (Exited 1),
                  sse_log := sse_log s @
                    [ConsoleLog ''Server closed'', Cleanup, UnhandledRejection e]\<rparr>
            | None \<Rightarrow>
                (case close_fails h of
                   Some e \<Rightarrow>
                     s\<lparr>sse_phase := SseStopped (Exited 1),
                       sse_log := sse_log s @
                         [ConsoleLog ''Server closed'', Cleanup, ServerClose,
                          UnhandledRejection e]\<rparr>
                 | None \<Rightarrow>
                     s\<lparr>sse_phase := SseStopped (Exited 0),
                       sse_log := sse_log s @
                         [ConsoleLog ''Server closed'', Cleanup, ServerClose,
                          ProcessExit 0]\<rparr>)))"

text \<open>
  One event of the SSE bootstrap. The routes exist from the moment \<^verbatim>\<open>createServer\<close> has
  resolved; the SIGINT listener is registered when the module is loaded.
\<close>

fun sse_step :: "environment \<Rightarrow> sse_state \<Rightarrow> event \<Rightarrow> sse_state" where
  "sse_step env s (CreateServerDoes eff) =
     (case sse_phase s of
        Initialising \<Rightarrow> s\<lparr>sse_log := sse_log s @ [eff]\<rparr>
      | _ \<Rightarrow> s)"
| "sse_step env s (CreateServerSettled r) =
     (case sse_phase s of
        Initialising \<Rightarrow>
          (case r of
             Inl e \<Rightarrow>
               s\<lparr>sse_phase := SseStopped (Exited 1),
                 sse_log := sse_log s @
                   [ConsoleError ''Error in server initialization:'' e, ProcessExit 1]\<rparr>
           | Inr h \<Rightarrow> s\<lparr>sse_phase := Listening h, cleanupFunction := Some h\<rparr>)
      | _ \<Rightarrow> s)"
| "sse_step env s (GetSse r) =
     (case sse_phase s of Listening h \<Rightarrow> get_sse h r s | _ \<Rightarrow> s)"
| "sse_step env s (PostMessage m) =
     (case sse_phase s of Listening h \<Rightarrow> post_message m s | _ \<Rightarrow> s)"
| "sse_step env s ServerOnClose =
     (case sse_phase s of
        Listening h \<Rightarrow> if onclose_set s then server_onclose env h s else s
      | _ \<Rightarrow> s)"
| "sse_step env s Sigint =
     (case sse_phase s of SseStopped st \<Rightarrow> s | _ \<Rightarrow> sse_on_sigint s)"
| "sse_step env s ConnectSettled = s"

definition sse_run :: "environment \<Rightarrow> event list \<Rightarrow> sse_state" where
  "sse_run env evs = foldl (sse_step env) sse_init evs"

text \<open>
  The client whose \<^verbatim>\<open>GET /sse\<close> came last in a list of events: the most recently
  connected client.
\<close>

fun last_connected :: "event list \<Rightarrow> nat option" where
  "last_connected [] = None"
| "last_connected (ev # evs) =
     (case last_connected evs of
        Some r \<Rightarrow> Some r
      | None \<Rightarrow> (case ev of GetSse r \<Rightarrow> Some r | _ \<Rightarrow> None))"

section \<open>The session startup\<close>

text \<open>
  Modelled from the spec: \<^verbatim>\<open>createServer\<close> of mcp-proxy.ts, which the bootstraps import
  and which is not among the sources. Section 2 of the spec gives its control flow: the
  credential goes to the resolver (\<open>loadConfig\<close>, from the sources), the descriptors the
  resolver returns go to the supervisor, and the supervisor opens one Backend Connection
  for each of them; a failure of the resolver is the failure of the call. \<open>h\<close> is the
  pair the call resolves to when it succeeds.
\<close>

definition createServer ::
  "environment \<Rightarrow> server_handle \<Rightarrow> string option \<Rightarrow> (js_error + server_handle) \<times> effect list" where
  "createServer env h apiKey =
     (case loadConfig env apiKey of
        (Inl e, effs) \<Rightarrow> (Inl e, effs)
      | (Inr cfg, effs) \<Rightarrow> (Inr h, effs @ map (\<lambda>d. OpenBackend (name d)) (servers cfg)))"

text \<open>
  \<^verbatim>\<open>main\<close> of index.ts and \<^verbatim>\<open>initServer\<close> of sse.ts, run from the start with
  \<^verbatim>\<open>process.env.MCP_API_KEY\<close>, the call of \<open>createServer\<close> above and no signal on the
  way.
\<close>

definition main :: "environment \<Rightarrow> server_handle \<Rightarrow> stdio_state" where
  "main env h =
     (case createServer env h (env_MCP_API_KEY env) of
        (r, effs) \<Rightarrow>
          stdio_run (map CreateServerDoes effs @ [CreateServerSettled r, ConnectSettled]))"

definition initServer :: "environment \<Rightarrow> server_handle \<Rightarrow> sse_state" where
  "initServer env h =
     (case createServer env h (env_MCP_API_KEY env) of
        (r, effs) \<Rightarrow> sse_run env (map CreateServerDoes effs @ [CreateServerSettled r]))"

section \<open>The aggregate catalog and the request router\<close>

text \<open>
  Modelled from the spec: the Capability Aggregator and the Request Router (sections 3,
  4.3 and 4.4 of the spec), whose code is not among the sources. A CapabilityEntry has
  the five fields of section 3. The AggregateCatalog is the mapping from aggregatedId to
  CapabilityEntry in the order of presentation: a list of entries, searched by
  aggregatedId.
\<close>

datatype capability_kind = Tool | Resource | Prompt

datatype capability =
  Capability (cap_originalId: string) (cap_kind: capability_kind) (cap_metadata: string)

text \<open>
  Modelled from the spec: the aggregatedId of section 3, a deterministic composition of
  backend name and original id that guarantees global uniqueness. The spec fixes no
  encoding (\<^verbatim>\<open><backend>::<original>\<close> is its example); what it asks of the composition
  is that two different pairs never compose the same identifier, and that the router can
  split an identifier into its pair again. The model keeps the two components side by
  side, which is every such composition up to the names of the identifiers.
\<close>

datatype aggregated_id = AggregatedId (id_backend: string) (id_original: string)

record capability_entry =
  aggregatedId :: aggregated_id
  ownerBackend :: string
  originalId :: string
  kind :: capability_kind
  metadata :: string

type_synonym catalog = "capability_entry list"

text \<open>Modelled from the spec: composing the aggregatedId of a backend name and an original id.\<close>

definition composeId :: "string \<Rightarrow> string \<Rightarrow> aggregated_id" where
  "composeId b t = AggregatedId b t"

text \<open>
  Modelled from the spec: splitting an aggregatedId into backend name and original id,
  the first step of \<^verbatim>\<open>handleInvoke\<close> in section 4.4.
\<close>

definition splitId :: "aggregated_id \<Rightarrow> string \<times> string" where
  "splitId aid = (id_backend aid, id_original aid)"

text \<open>
  Modelled from the spec: the CapabilityEntry of a capability that a backend advertises,
  with the freshly computed aggregatedId.
\<close>

definition mkEntry :: "string \<Rightarrow> capability \<Rightarrow> capability_entry" where
  "mkEntry b cap =
     \<lparr>aggregatedId = composeId b (cap_originalId cap), ownerBackend = b,
      originalId = cap_originalId cap, kind = cap_kind cap, metadata = cap_metadata cap\<rparr>"

text \<open>An entry whose aggregatedId is the composition of its owner and its original id.\<close>

definition composed :: "capability_entry \<Rightarrow> bool" where
  "composed e = (aggregatedId e = composeId (ownerBackend e) (originalId e))"

text \<open>Modelled from the spec: the mapping, read at an aggregatedId.\<close>

definition lookupEntry :: "catalog \<Rightarrow> aggregated_id \<Rightarrow> capability_entry option" where
  "lookupEntry c aid = find (\<lambda>e. aggregatedId e = aid) c"

text \<open>
  Modelled from the spec: the reverse index of section 3, from a backend name to the
  set of its aggregatedIds, read off the entries.
\<close>

definition reverseIndex :: "catalog \<Rightarrow> string \<Rightarrow> aggregated_id set" where
  "reverseIndex c b = aggregatedId ` set (filter (\<lambda>e. ownerBackend e = b) c)"

text \<open>
  Modelled from the spec: inserting an entry into a list of entries. An entry whose
  aggregatedId is already there overwrites the earlier one (the collision policy of
  section 4.3 for a duplicate in one backend's list); a new one goes to the end.
\<close>

fun insertEntry :: "capability_entry \<Rightarrow> catalog \<Rightarrow> catalog" where
  "insertEntry e [] = [e]"
| "insertEntry e (x # xs) =
     (if aggregatedId x = aggregatedId e then e # xs else x # insertEntry e xs)"

text \<open>Modelled from the spec: pruning a backend removes the entries it owns.\<close>

definition prune :: "string \<Rightarrow> catalog \<Rightarrow> catalog" where
  "prune b c = filter (\<lambda>e. ownerBackend e \<noteq> b) c"

text \<open>
  Modelled from the spec: the new set of a backend's entries, in the original order of
  its list, a later duplicate of an original id overwriting the earlier one.
\<close>

definition ownEntries :: "string \<Rightarrow> capability list \<Rightarrow> catalog" where
  "ownEntries b caps = foldl (\<lambda>acc cap. insertEntry (mkEntry b cap) acc) [] caps"

text \<open>
  Modelled from the spec: the merge policy of section 4.3. The entries the backend owned
  are removed and the new set is inserted with freshly computed aggregatedIds, at the
  place of the backend in the order of presentation: where its first entry was, and at
  the end for a backend that has no entry in the catalog. The entries of the other
  backends stay where they are.
\<close>

definition mergeBackend :: "string \<Rightarrow> capability list \<Rightarrow> catalog \<Rightarrow> catalog" where
  "mergeBackend b caps c =
     takeWhile (\<lambda>e. ownerBackend e \<noteq> b) c @ ownEntries b caps @
     prune b (dropWhile (\<lambda>e. ownerBackend e \<noteq> b) c)"

text \<open>Modelled from the spec: \<^verbatim>\<open>listAll(kind)\<close> of section 4.3, the entries of a kind in order.\<close>

definition listAll :: "capability_kind \<Rightarrow> catalog \<Rightarrow> catalog" where
  "listAll k c = filter (\<lambda>e. kind e = k) c"

text \<open>
  Modelled from the spec: a session's updates of the catalog, one backend's list merged
  or one backend pruned at a time, from the empty catalog.
\<close>

datatype catalog_op = Merge string "capability list" | Prune string

fun op_backend :: "catalog_op \<Rightarrow> string" where
  "op_backend (Merge b caps) = b"
| "op_backend (Prune b) = b"

fun apply_op :: "catalog \<Rightarrow> catalog_op \<Rightarrow> catalog" where
  "apply_op c (Merge b caps) = mergeBackend b caps c"
| "apply_op c (Prune b) = prune b c"

definition run_ops :: "catalog_op list \<Rightarrow> catalog" where
  "run_ops ops = foldl apply_op [] ops"

text \<open>
  Modelled from the spec: a Backend Connection's \<^verbatim>\<open>invoke(originalId, arguments)\<close>
  returns the backend's result or a structured error, or nothing before the request's
  deadline. The structured error names the backend it comes from; the error the
  upstream caller gets has the standard shape only.
\<close>

datatype backend_error =
  BackendError (failed_backend: string) (error_code: int) (error_message: string)

datatype invoke_outcome = Result string | Failure backend_error | NoReply

datatype upstream_error = UnknownCapability | RequestTimeout | UpstreamError int string

type_synonym backend_connection = "string \<Rightarrow> string \<Rightarrow> invoke_outcome"

text \<open>
  Modelled from the spec: what the router returns upstream for the outcome of a
  forwarded call. A result goes through as it is, a structured error loses the name of
  the backend, and a missed deadline is \<open>RequestTimeout\<close>.
\<close>

fun translate :: "invoke_outcome \<Rightarrow> upstream_error + string" where
  "translate (Result r) = Inr r"
| "translate (Failure (BackendError b code msg)) = Inl (UpstreamError code msg)"
| "translate NoReply = Inl RequestTimeout"

text \<open>
  Modelled from the spec: \<^verbatim>\<open>handleInvoke(aggregatedId, payload)\<close> of section 4.4. The
  aggregatedId is split into backend name and original id; an aggregatedId that is
  absent from the catalog is \<open>UnknownCapability\<close>; otherwise the call goes to the
  \<^verbatim>\<open>invoke\<close> of the Backend Connection of that name, with that original id and the
  payload, and its outcome is translated. \<open>conns\<close> gives the Backend Connection of
  each backend name. The function returns the upstream result next to the calls it
  forwarded, each a triple of backend name, original id and payload.
\<close>

definition handleInvoke ::
  "catalog \<Rightarrow> (string \<Rightarrow> backend_connection) \<Rightarrow> aggregated_id \<Rightarrow> string \<Rightarrow>
     (upstream_error + string) \<times> (string \<times> string \<times> string) list" where
  "handleInvoke c conns aid payload =
     (case splitId aid of
        (b, t) \<Rightarrow>
          (case lookupEntry c aid of
             None \<Rightarrow> (Inl UnknownCapability, [])
           | Some e \<Rightarrow> (translate (conns b t payload), [(b, t, payload)])))"

section \<open>A concrete world\<close>

text \<open>
  A world with the default resolver URL, no configuration file, the key \<^verbatim>\<open>key-1\<close> in
  \<^verbatim>\<open>MCP_API_KEY\<close>, and a resolver that answers the request of that key with the given
  outcome and no other request.
\<close>

definition example_env :: "(js_error + auth_response) \<Rightarrow> environment" where
  "example_env outcome =
     \<lparr>env_CLIENT_API_URL = None, env_MCP_CONFIG_PATH = None, env_MCP_API_KEY = Some ''key-1'',
      env_KEEP_SERVER_OPEN = None, cwd = Inr ''/srv'',
      resolve = (\<lambda>d f. d @ ''/'' @ f),
      axios_get = (\<lambda>u a. if u = ''http://localhost:8000/api/servers'' \<and> a = ''Bearer key-1''
                          then outcome else Inl (AxiosError None ''connect ECONNREFUSED'')),
      readFile = (\<lambda>p. Inl (OtherError ''ENOENT'')),
      JSON_parse = (\<lambda>t. Inl (OtherError ''SyntaxError''))\<rparr>"

definition example_handle :: server_handle where
  "example_handle = ServerHandle None None None"

text \<open>A backend with a tool that answers, a tool that fails and nothing else.\<close>

definition example_backend :: backend_connection where
  "example_backend t args =
     (if t = ''read'' then Result (''contents of '' @ args)
      else if t = ''write'' then Failure (BackendError ''files'' (-32000) ''read-only'')
      else NoReply)"

text \<open>
  The connections of a session: the backend \<^verbatim>\<open>files\<close> is the one above, and every
  other backend answers each call with its own name, the tool and the payload.
\<close>

definition example_conns :: "string \<Rightarrow> backend_connection" where
  "example_conns b =
     (if b = ''files'' then example_backend
      else (\<lambda>t args. Result (b @ '' answers '' @ t @ '' '' @ args)))"

section \<open>Properties\<close>

subsection \<open>The resolver client\<close>

lemma example_env_request:
  "axios_get (example_env outcome) (CLIENT_API_URL (example_env outcome) @ ''/servers'')
     (''Bearer '' @ ''key-1'') = outcome"
  by (simp add: example_env_def CLIENT_API_URL_def js_or_def)

text \<open>
  C5, as the spec has it: every failure of the resolver call is one of the three typed
  failures. It is not so: a response that arrives with \<^verbatim>\<open>success: false\<close> makes the
  call fail with the message of the response, which is none of the three.
\<close>

theorem authenticateAndGetServers_untyped_failure:
  "fst (authenticateAndGetServers
          (example_env (Inr (AuthResponse False [] (Some ''key revoked'')))) ''key-1'') =
     Inl (Error ''key revoked'') \<and>
   \<not> typed_failure (Error ''key revoked'')"
  by (simp add: authenticateAndGetServers_def example_env_request js_or_def typed_failure_def
      Let_def del: append.simps)

text \<open>
  C5, amended: the resolver call returns the list of servers of a response that reports
  success; it fails with \<^verbatim>\<open>Invalid API key\<close> when the request fails with status 401,
  with \<^verbatim>\<open>No permission\<close> when it fails with status 403, and with \<^verbatim>\<open>Auth error:\<close>
  and the message of the failure for every other failure of the request; a response
  that reports \<^verbatim>\<open>success: false\<close> fails with the message of the response
  (\<^verbatim>\<open>Auth failed\<close> when it has none), and a thrown value that is not an axios error
  is thrown on unchanged.
\<close>

theorem authenticateAndGetServers_outcomes:
  assumes "axios_get env (CLIENT_API_URL env @ ''/servers'') (''Bearer '' @ apiKey) = outcome"
  shows
    "(\<forall>r. outcome = Inr r \<longrightarrow> success r \<longrightarrow>
        fst (authenticateAndGetServers env apiKey) = Inr (response_servers r)) \<and>
     (\<forall>r. outcome = Inr r \<longrightarrow> \<not> success r \<longrightarrow>
        fst (authenticateAndGetServers env apiKey) =
          Inl (Error (js_or (message r) ''Auth failed''))) \<and>
     (\<forall>m. outcome = Inl (AxiosError (Some 401) m) \<longrightarrow>
        fst (authenticateAndGetServers env apiKey) = Inl (Error ''Invalid API key'')) \<and>
     (\<forall>m. outcome = Inl (AxiosError (Some 403) m) \<longrightarrow>
        fst (authenticateAndGetServers env apiKey) = Inl (Error ''No permission'')) \<and>
     (\<forall>st m. outcome = Inl (AxiosError st m) \<longrightarrow> st \<noteq> Some 401 \<longrightarrow> st \<noteq> Some 403 \<longrightarrow>
        fst (authenticateAndGetServers env apiKey) = Inl (Error (''Auth error: '' @ m))) \<and>
     (\<forall>m. outcome = Inl (Error m) \<longrightarrow>
        fst (authenticateAndGetServers env apiKey) = Inl (Error m)) \<and>
     (\<forall>m. outcome = Inl (OtherError m) \<longrightarrow>
        fst (authenticateAndGetServers env apiKey) = Inl (OtherError m))"
proof -
  have result: "fst (authenticateAndGetServers env apiKey) =
      (case outcome of
         Inl e \<Rightarrow> Inl (auth_catch e)
       | Inr r \<Rightarrow> if success r then Inr (response_servers r)
                 else Inl (Error (js_or (message r) ''Auth failed'')))"
    using assms by (simp add: authenticateAndGetServers_def Let_def split: sum.splits)
  show ?thesis
    unfolding result by simp
qed

theorem authenticateAndGetServers_outcomes_witness:
  "fst (authenticateAndGetServers (example_env (Inr (AuthResponse True [ServerConfig ''files'' (TransportConfigSSE ''http://localhost:9001/sse'')] None))) ''key-1'') =
     Inr [ServerConfig ''files'' (TransportConfigSSE ''http://localhost:9001/sse'')] \<and>
   fst (authenticateAndGetServers (example_env (Inr (AuthResponse False [] None))) ''key-1'') =
     Inl (Error ''Auth failed'') \<and>
   fst (authenticateAndGetServers (example_env (Inl (AxiosError (Some 401) ''Request failed with status code 401''))) ''key-1'') =
     Inl (Error ''Invalid API key'') \<and>
   fst (authenticateAndGetServers (example_env (Inl (AxiosError (Some 403) ''Request failed with status code 403''))) ''key-1'') =
     Inl (Error ''No permission'') \<and>
   fst (authenticateAndGetServers (example_env (Inl (AxiosError None ''timeout''))) ''key-1'') =
     Inl (Error ''Auth error: timeout'') \<and>
   fst (authenticateAndGetServers (example_env (Inl (OtherError ''TypeError''))) ''key-1'') =
     Inl (OtherError ''TypeError'')"
  using
    authenticateAndGetServers_outcomes [OF example_env_request [of "Inr (AuthResponse True [ServerConfig ''files'' (TransportConfigSSE ''http://localhost:9001/sse'')] None)"]]
    authenticateAndGetServers_outcomes [OF example_env_request [of "Inr (AuthResponse False [] None)"]]
    authenticateAndGetServers_outcomes [OF example_env_request [of "Inl (AxiosError (Some 401) ''Request failed with status code 401'')"]]
    authenticateAndGetServers_outcomes [OF example_env_request [of "Inl (AxiosError (Some 403) ''Request failed with status code 403'')"]]
    authenticateAndGetServers_outcomes [OF example_env_request [of "Inl (AxiosError None ''timeout'')"]]
    authenticateAndGetServers_outcomes [OF example_env_request [of "Inl (OtherError ''TypeError'')"]]
  by (simp add: js_or_def)

subsection \<open>The configuration loader\<close>

text \<open>
  C9: with an API key (a string that is not empty: \<^verbatim>\<open>if (apiKey)\<close>), the result of
  \<open>loadConfig\<close> is the resolver's, a failure of the resolver is the failure of
  \<open>loadConfig\<close>, the configuration file is never read, and nothing of the file system
  changes the outcome.
\<close>

theorem loadConfig_apiKey_resolver_only:
  assumes "k \<noteq> []"
  shows
    "fst (loadConfig env (Some k)) = map_sum id Config (fst (authenticateAndGetServers env k)) \<and>
     (\<forall>e. fst (authenticateAndGetServers env k) = Inl e \<longrightarrow> fst (loadConfig env (Some k)) = Inl e) \<and>
     (\<forall>p. ReadFile p \<notin> set (snd (loadConfig env (Some k)))) \<and>
     loadConfig (env\<lparr>env_MCP_CONFIG_PATH := q, cwd := d, readFile := rf, JSON_parse := jp\<rparr>) (Some k) =
       loadConfig env (Some k)"
proof -
  obtain r effs where a: "authenticateAndGetServers env k = (r, effs)"
    by (cases "authenticateAndGetServers env k")
  have effs: "effs = [HttpGet (CLIENT_API_URL env @ ''/servers'') (''Bearer '' @ k)]"
    using a by (auto simp: authenticateAndGetServers_def Let_def)
  have same: "authenticateAndGetServers
      (env\<lparr>env_MCP_CONFIG_PATH := q, cwd := d, readFile := rf, JSON_parse := jp\<rparr>) k =
      authenticateAndGetServers env k"
    by (simp add: authenticateAndGetServers_def CLIENT_API_URL_def)
  show ?thesis
    using assms a effs same by (cases r) (simp_all add: loadConfig_def)
qed

theorem loadConfig_apiKey_resolver_only_witness:
  "''key-1'' \<noteq> [] \<and>
   fst (loadConfig (example_env (Inl (AxiosError (Some 401) ''Unauthorized''))) (Some ''key-1'')) =
     Inl (Error ''Invalid API key'') \<and>
   ReadFile ''/srv/config.json'' \<notin>
     set (snd (loadConfig (example_env (Inl (AxiosError (Some 401) ''Unauthorized''))) (Some ''key-1'')))"
proof -
  have k: "''key-1'' \<noteq> []" by simp
  have r: "fst (authenticateAndGetServers
      (example_env (Inl (AxiosError (Some 401) ''Unauthorized''))) ''key-1'') =
      Inl (Error ''Invalid API key'')"
    by (simp add: authenticateAndGetServers_def example_env_request Let_def del: append.simps)
  show ?thesis
    using loadConfig_apiKey_resolver_only [OF k, of "example_env (Inl (AxiosError (Some 401) ''Unauthorized''))"] r
    by simp
qed

text \<open>
  C10: without an API key \<open>loadConfig\<close> never throws. Whatever fails on the way to the
  configuration (the working directory, the read of the file, the parse of its text),
  the result is a configuration with an empty server list; the resolver is not called.
\<close>

theorem loadConfig_without_key_never_throws:
  assumes "\<not> truthy apiKey"
  shows
    "(\<exists>cfg. fst (loadConfig env apiKey) = Inr cfg) \<and>
     (\<forall>e. configPath env = Inl e \<longrightarrow> fst (loadConfig env apiKey) = Inr (Config [])) \<and>
     (\<forall>p e. configPath env = Inr p \<longrightarrow> readFile env p = Inl e \<longrightarrow>
        fst (loadConfig env apiKey) = Inr (Config [])) \<and>
     (\<forall>p t e. configPath env = Inr p \<longrightarrow> readFile env p = Inr t \<longrightarrow> JSON_parse env t = Inl e \<longrightarrow>
        fst (loadConfig env apiKey) = Inr (Config [])) \<and>
     (\<forall>u a. HttpGet u a \<notin> set (snd (loadConfig env apiKey)))"
proof -
  have from_file: "loadConfig env apiKey = loadConfigFile env"
    using assms by (simp add: loadConfig_def truthy_def split: option.splits)
  show ?thesis
    unfolding from_file by (simp add: loadConfigFile_def split: sum.splits)
qed

theorem loadConfig_without_key_never_throws_witness:
  "\<not> truthy None \<and> \<not> truthy (Some '''') \<and>
   fst (loadConfig (example_env (Inl (AxiosError None ''down''))) None) = Inr (Config []) \<and>
   fst (loadConfig ((example_env (Inl (AxiosError None ''down'')))\<lparr>readFile := \<lambda>p. Inr ''{''\<rparr>) (Some '''')) = Inr (Config []) \<and>
   fst (loadConfig ((example_env (Inl (AxiosError None ''down'')))\<lparr>cwd := Inl (OtherError ''ENOENT: uv_cwd'')\<rparr>) None) = Inr (Config [])"
proof -
  have n: "\<not> truthy None" and e: "\<not> truthy (Some '''')"
    by (simp_all add: truthy_def)
  have p: "configPath (example_env (Inl (AxiosError None ''down''))) = Inr ''/srv/config.json''"
    by (simp add: configPath_def example_env_def)
  have p2: "configPath ((example_env (Inl (AxiosError None ''down'')))\<lparr>readFile := \<lambda>p. Inr ''{''\<rparr>) = Inr ''/srv/config.json''"
    by (simp add: configPath_def example_env_def)
  have p3: "configPath ((example_env (Inl (AxiosError None ''down'')))\<lparr>cwd := Inl (OtherError ''ENOENT: uv_cwd'')\<rparr>) = Inl (OtherError ''ENOENT: uv_cwd'')"
    by (simp add: configPath_def example_env_def)
  show ?thesis
    using n e
      loadConfig_without_key_never_throws [OF n, of "example_env (Inl (AxiosError None ''down''))"]
      loadConfig_without_key_never_throws [OF e, of "(example_env (Inl (AxiosError None ''down'')))\<lparr>readFile := \<lambda>p. Inr ''{''\<rparr>"]
      loadConfig_without_key_never_throws [OF n, of "(example_env (Inl (AxiosError None ''down'')))\<lparr>cwd := Inl (OtherError ''ENOENT: uv_cwd'')\<rparr>"]
      p p2 p3
    by (simp add: example_env_def)
qed


subsection \<open>The bootstraps: runs and what survives a step\<close>

lemma stdio_run_snoc: "stdio_run (evs @ [ev]) = stdio_step (stdio_run evs) ev"
  by (simp add: stdio_run_def)

lemma sse_run_snoc: "sse_run env (evs @ [ev]) = sse_step env (sse_run env evs) ev"
  by (simp add: sse_run_def)

lemma stdio_stopped_step: "stdio_phase s = StdioStopped st \<Longrightarrow> stdio_step s ev = s"
  by (cases ev) simp_all

lemma sse_stopped_step: "sse_phase s = SseStopped st \<Longrightarrow> sse_step env s ev = s"
  by (cases ev) simp_all

lemma stdio_exit_step:
  assumes "\<And>st. stdio_phase s \<noteq> StdioStopped st"
    and "stdio_phase (stdio_step s ev) = StdioStopped (Exited n)"
  shows "(n = 0 \<and> stdio_log (stdio_step s ev) = stdio_log s @ [Cleanup, ServerClose, ProcessExit 0]) \<or>
         (n = 1 \<and>
           ((\<exists>pre e. stdio_log (stdio_step s ev) =
                pre @ [ConsoleError ''Server error:'' e, ProcessExit 1]) \<or>
            (\<exists>pre e. stdio_log (stdio_step s ev) = pre @ [UnhandledRejection e])))"
proof (cases ev)
  case (CreateServerDoes eff)
  with assms show ?thesis
    by (cases "stdio_phase s") auto
next
  case (CreateServerSettled r)
  with assms show ?thesis
    by (cases "stdio_phase s"; cases r) (auto simp: main_catch_def)
next
  case ConnectSettled
  with assms show ?thesis
    by (cases "stdio_phase s") (auto simp: main_catch_def split: option.splits)
next
  case Sigint
  with assms show ?thesis
    by (cases "stdio_phase s") (auto simp: main_on_sigint_def split: option.splits)
qed (use assms in simp_all)

lemma stdio_exit_run:
  "stdio_phase (stdio_run evs) = StdioStopped (Exited n) \<Longrightarrow>
     (n = 0 \<and> (\<exists>pre. stdio_log (stdio_run evs) = pre @ [Cleanup, ServerClose, ProcessExit 0])) \<or>
     (n = 1 \<and>
           ((\<exists>pre e. stdio_log (stdio_run evs) =
                pre @ [ConsoleError ''Server error:'' e, ProcessExit 1]) \<or>
            (\<exists>pre e. stdio_log (stdio_run evs) = pre @ [UnhandledRejection e])))"
proof (induction evs rule: rev_induct)
  case Nil
  then show ?case by (simp add: stdio_run_def stdio_init_def)
next
  case (snoc ev evs)
  show ?case
  proof (cases "\<exists>st. stdio_phase (stdio_run evs) = StdioStopped st")
    case True
    then obtain st where "stdio_phase (stdio_run evs) = StdioStopped st" ..
    then have "stdio_run (evs @ [ev]) = stdio_run evs"
      by (simp add: stdio_run_snoc stdio_stopped_step)
    with snoc show ?thesis by simp
  next
    case False
    then have "\<And>st. stdio_phase (stdio_run evs) \<noteq> StdioStopped st" by blast
    from stdio_exit_step [OF this] snoc.prems show ?thesis
      unfolding stdio_run_snoc by blast
  qed
qed

lemma sse_globals_step:
  assumes "sse_phase s = Initialising \<longrightarrow> cleanupFunction s = None"
    and "\<forall>h. sse_phase s = Listening h \<longrightarrow> cleanupFunction s = Some h"
  shows "(sse_phase (sse_step env s ev) = Initialising \<longrightarrow>
            cleanupFunction (sse_step env s ev) = None) \<and>
         (\<forall>h. sse_phase (sse_step env s ev) = Listening h \<longrightarrow>
            cleanupFunction (sse_step env s ev) = Some h)"
proof (cases ev)
  case (CreateServerDoes eff)
  with assms show ?thesis by (cases "sse_phase s") auto
next
  case (CreateServerSettled r)
  with assms show ?thesis by (cases "sse_phase s"; cases r) auto
next
  case ConnectSettled
  with assms show ?thesis by simp
next
  case Sigint
  with assms show ?thesis
    by (cases "sse_phase s") (auto simp: sse_on_sigint_def split: option.splits)
next
  case (GetSse r)
  with assms show ?thesis
    by (cases "sse_phase s") (auto simp: get_sse_def split: option.splits)
next
  case (PostMessage m)
  with assms show ?thesis
    by (cases "sse_phase s") (auto simp: post_message_def split: option.splits)
next
  case ServerOnClose
  with assms show ?thesis
    by (cases "sse_phase s") (auto simp: server_onclose_def split: option.splits)
qed

lemma sse_globals_run:
  "(sse_phase (sse_run env evs) = Initialising \<longrightarrow> cleanupFunction (sse_run env evs) = None) \<and>
   (\<forall>h. sse_phase (sse_run env evs) = Listening h \<longrightarrow>
      cleanupFunction (sse_run env evs) = Some h)"
proof (induction evs rule: rev_induct)
  case Nil
  show ?case by (simp add: sse_run_def sse_init_def)
next
  case (snoc ev evs)
  from sse_globals_step [OF snoc.IH [THEN conjunct1] snoc.IH [THEN conjunct2]]
  show ?case unfolding sse_run_snoc .
qed

lemma sse_exit_step:
  assumes "\<And>st. sse_phase s \<noteq> SseStopped st"
    and "sse_phase s = Initialising \<longrightarrow> cleanupFunction s = None"
    and "\<forall>h. sse_phase s = Listening h \<longrightarrow> cleanupFunction s = Some h"
    and "sse_phase (sse_step env s ev) = SseStopped (Exited n)"
  shows "(n = 0 \<and>
           ((\<exists>pre. sse_log (sse_step env s ev) = pre @ [Cleanup, ProcessExit 0]) \<or>
            (\<exists>pre. sse_log (sse_step env s ev) = pre @ [Cleanup, ServerClose, ProcessExit 0]) \<or>
            cleanupFunction (sse_step env s ev) = None)) \<or>
         (n = 1 \<and>
           ((\<exists>pre e. sse_log (sse_step env s ev) =
                pre @ [ConsoleError ''Error in server initialization:'' e, ProcessExit 1]) \<or>
            (\<exists>pre e. sse_log (sse_step env s ev) = pre @ [UnhandledRejection e])))"
proof (cases ev)
  case (CreateServerDoes eff)
  with assms show ?thesis by (cases "sse_phase s") auto
next
  case (CreateServerSettled r)
  with assms show ?thesis by (cases "sse_phase s"; cases r) auto
next
  case ConnectSettled
  with assms show ?thesis by simp
next
  case Sigint
  with assms show ?thesis
    by (cases "sse_phase s") (auto simp: sse_on_sigint_def split: option.splits)
next
  case (GetSse r)
  with assms show ?thesis
    by (cases "sse_phase s") (auto simp: get_sse_def split: option.splits)
next
  case (PostMessage m)
  with assms show ?thesis
    by (cases "sse_phase s") (auto simp: post_message_def split: option.splits)
next
  case ServerOnClose
  with assms show ?thesis
    by (cases "sse_phase s") (auto simp: server_onclose_def split: option.splits if_splits)
qed

lemma sse_exit_run:
  "sse_phase (sse_run env evs) = SseStopped (Exited n) \<Longrightarrow>
     (n = 0 \<and>
        ((\<exists>pre. sse_log (sse_run env evs) = pre @ [Cleanup, ProcessExit 0]) \<or>
         (\<exists>pre. sse_log (sse_run env evs) = pre @ [Cleanup, ServerClose, ProcessExit 0]) \<or>
         cleanupFunction (sse_run env evs) = None)) \<or>
     (n = 1 \<and>
           ((\<exists>pre e. sse_log (sse_run env evs) =
                pre @ [ConsoleError ''Error in server initialization:'' e, ProcessExit 1]) \<or>
            (\<exists>pre e. sse_log (sse_run env evs) = pre @ [UnhandledRejection e])))"
proof (induction evs rule: rev_induct)
  case Nil
  then show ?case by (simp add: sse_run_def sse_init_def)
next
  case (snoc ev evs)
  show ?case
  proof (cases "\<exists>st. sse_phase (sse_run env evs) = SseStopped st")
    case True
    then obtain st where "sse_phase (sse_run env evs) = SseStopped st" ..
    then have "sse_run env (evs @ [ev]) = sse_run env evs"
      by (simp add: sse_run_snoc sse_stopped_step)
    with snoc show ?thesis by simp
  next
    case False
    then have "\<And>st. sse_phase (sse_run env evs) \<noteq> SseStopped st" by blast
    from snoc.prems have "sse_phase (sse_step env (sse_run env evs) ev) = SseStopped (Exited n)"
      by (simp add: sse_run_snoc)
    from sse_exit_step
      [OF \<open>\<And>st. sse_phase (sse_run env evs) \<noteq> SseStopped st\<close>
        sse_globals_run [THEN conjunct1] sse_globals_run [THEN conjunct2] this]
    show ?thesis
      unfolding sse_run_snoc .
  qed
qed

lemma stdio_pending_effects:
  "stdio_phase s = AwaitCreateServer \<Longrightarrow>
     foldl stdio_step s (map CreateServerDoes effs) = s\<lparr>stdio_log := stdio_log s @ effs\<rparr>"
  by (induction effs arbitrary: s) simp_all

lemma sse_pending_effects:
  "sse_phase s = Initialising \<Longrightarrow>
     foldl (sse_step env) s (map CreateServerDoes effs) = s\<lparr>sse_log := sse_log s @ effs\<rparr>"
  by (induction effs arbitrary: s) simp_all

lemma sse_step_Initialising:
  assumes "sse_phase (sse_step env s ev) = Initialising"
  shows "sse_phase s = Initialising \<and> transport (sse_step env s ev) = transport s"
proof (cases ev)
  case (CreateServerDoes eff)
  with assms show ?thesis by (cases "sse_phase s") auto
next
  case (CreateServerSettled r)
  with assms show ?thesis by (cases "sse_phase s"; cases r) auto
next
  case ConnectSettled
  with assms show ?thesis by simp
next
  case Sigint
  with assms show ?thesis
    by (cases "sse_phase s") (auto simp: sse_on_sigint_def split: option.splits)
next
  case (GetSse r)
  with assms show ?thesis
    by (cases "sse_phase s") (auto simp: get_sse_def split: option.splits)
next
  case (PostMessage m)
  with assms show ?thesis
    by (cases "sse_phase s") (auto simp: post_message_def split: option.splits)
next
  case ServerOnClose
  with assms show ?thesis
    by (cases "sse_phase s") (auto simp: server_onclose_def split: option.splits if_splits)
qed

lemma sse_initialising_run:
  "sse_phase (sse_run env evs) = Initialising \<Longrightarrow> transport (sse_run env evs) = None"
proof (induction evs rule: rev_induct)
  case Nil
  show ?case by (simp add: sse_run_def sse_init_def)
next
  case (snoc ev evs)
  from snoc.prems sse_step_Initialising [of env "sse_run env evs" ev]
  have "sse_phase (sse_run env evs) = Initialising"
    and "transport (sse_run env (evs @ [ev])) = transport (sse_run env evs)"
    by (simp_all add: sse_run_snoc)
  with snoc.IH show ?case by simp
qed

lemma sse_stopped_foldl:
  "sse_phase s = SseStopped st \<Longrightarrow> foldl (sse_step env) s evs = s"
  by (induction evs) (simp_all add: sse_stopped_step)

lemma sse_listening_step:
  assumes "sse_phase s = Listening h"
  shows "(\<exists>st. sse_phase (sse_step env s ev) = SseStopped st) \<or>
         sse_phase (sse_step env s ev) = Listening h \<and>
         transport (sse_step env s ev) = (case ev of GetSse r \<Rightarrow> Some r | _ \<Rightarrow> transport s)"
proof (cases ev)
  case Sigint
  with assms show ?thesis by (simp add: sse_on_sigint_def split: option.splits)
next
  case (GetSse r)
  with assms show ?thesis by (simp add: get_sse_def split: option.splits)
next
  case (PostMessage m)
  with assms show ?thesis by (simp add: post_message_def split: option.splits)
next
  case ServerOnClose
  with assms show ?thesis by (simp add: server_onclose_def split: option.splits)
qed (use assms in simp_all)

lemma sse_listening_foldl:
  assumes "sse_phase s = Listening h"
    and "sse_phase (foldl (sse_step env) s reqs) = Listening h'"
  shows "transport (foldl (sse_step env) s reqs) =
           (case last_connected reqs of None \<Rightarrow> transport s | Some r \<Rightarrow> Some r)"
  using assms
proof (induction reqs arbitrary: s)
  case Nil
  then show ?case by simp
next
  case (Cons ev reqs)
  from sse_listening_step [OF Cons.prems(1), of env ev]
  show ?case
  proof
    assume "\<exists>st. sse_phase (sse_step env s ev) = SseStopped st"
    then obtain st where st: "sse_phase (sse_step env s ev) = SseStopped st" ..
    then have "foldl (sse_step env) s (ev # reqs) = sse_step env s ev"
      by (simp add: sse_stopped_foldl)
    with st Cons.prems(2) show ?thesis by simp
  next
    assume l: "sse_phase (sse_step env s ev) = Listening h \<and>
      transport (sse_step env s ev) = (case ev of GetSse r \<Rightarrow> Some r | _ \<Rightarrow> transport s)"
    then have "transport (foldl (sse_step env) (sse_step env s ev) reqs) =
        (case last_connected reqs of
           None \<Rightarrow> transport (sse_step env s ev)
         | Some r \<Rightarrow> Some r)"
      using Cons.IH [of "sse_step env s ev"] Cons.prems(2) by simp
    with l show ?thesis
      by (cases ev) (simp_all split: option.splits)
  qed
qed

subsection \<open>Shutdown on SIGINT\<close>

text \<open>
  C7, as the spec has it: on SIGINT \<^verbatim>\<open>cleanup\<close> runs before the process exits, the
  exit code is 0, and exit code 1 is kept for a failure of the startup. Three runs
  show otherwise. In the SSE bootstrap, while \<^verbatim>\<open>createServer\<close> is pending,
  \<^verbatim>\<open>cleanupFunction\<close> is still undefined: the listener skips the cleanup and the
  process exits with code 0, whatever the pending call has opened by then. In the stdio
  bootstrap, after a startup that has completed, a \<^verbatim>\<open>cleanup\<close> that rejects leaves the
  listener with an unhandled rejection: \<^verbatim>\<open>process.exit(0)\<close> is not reached and the
  process ends with exit code 1. And while the stdio bootstrap has not yet registered
  its listener, SIGINT ends the process with no cleanup and no exit code of its own.
\<close>

theorem sigint_cleanup_skipped_or_exit_1:
  "sse_phase (sse_run (example_env (Inl (AxiosError None ''down'')))
      [CreateServerDoes (OpenBackend ''files''), Sigint]) = SseStopped (Exited 0) \<and>
   sse_log (sse_run (example_env (Inl (AxiosError None ''down'')))
      [CreateServerDoes (OpenBackend ''files''), Sigint]) =
     [OpenBackend ''files'', ProcessExit 0] \<and>
   stdio_phase (stdio_run
      [CreateServerSettled (Inr (ServerHandle None (Some (Error ''backend gone'')) None)),
       ConnectSettled]) =
     Serving (ServerHandle None (Some (Error ''backend gone'')) None) \<and>
   stdio_phase (stdio_run
      [CreateServerSettled (Inr (ServerHandle None (Some (Error ''backend gone'')) None)),
       ConnectSettled, Sigint]) = StdioStopped (Exited 1) \<and>
   stdio_log (stdio_run
      [CreateServerSettled (Inr (ServerHandle None (Some (Error ''backend gone'')) None)),
       ConnectSettled, Sigint]) =
     [ServerConnectStdio, OnSigint, Cleanup, UnhandledRejection (Error ''backend gone'')] \<and>
   stdio_phase (stdio_run [CreateServerDoes (OpenBackend ''files''), Sigint]) =
     StdioStopped KilledBySignal \<and>
   stdio_log (stdio_run [CreateServerDoes (OpenBackend ''files''), Sigint]) =
     [OpenBackend ''files'']"
  by (simp add: sse_run_def sse_init_def sse_on_sigint_def stdio_run_def stdio_init_def
      main_on_sigint_def)

text \<open>
  C7, amended: once the startup is over (the stdio bootstrap is serving, the SSE
  bootstrap is listening), a SIGINT calls \<^verbatim>\<open>cleanup\<close> before the process ends, and the
  exit code is 0 when \<^verbatim>\<open>cleanup\<close> (and, in the stdio bootstrap, \<^verbatim>\<open>server.close\<close>
  after it) resolves and 1 when one of them rejects. Before that a SIGINT finds no
  cleanup to call: the SSE bootstrap exits with code 0, the stdio bootstrap, which has
  no listener yet, is ended by the signal. In every run an exit with code 0 comes right
  after the cleanup, the early SIGINT of the SSE bootstrap apart, and an exit with code 1
  comes from the \<^verbatim>\<open>catch\<close> block of the startup or from a rejection that nothing
  handles.
\<close>

theorem sigint_shutdown:
  "(\<forall>h. stdio_phase (stdio_run evs) = Serving h \<longrightarrow>
        (\<exists>rest. stdio_log (stdio_step (stdio_run evs) Sigint) =
           stdio_log (stdio_run evs) @ Cleanup # rest) \<and>
        stdio_phase (stdio_step (stdio_run evs) Sigint) =
          StdioStopped
            (Exited (if cleanup_fails h = None \<and> close_fails h = None then 0 else 1)) \<and>
        (cleanup_fails h = None \<longrightarrow> close_fails h = None \<longrightarrow>
           stdio_log (stdio_step (stdio_run evs) Sigint) =
             stdio_log (stdio_run evs) @ [Cleanup, ServerClose, ProcessExit 0])) \<and>
   (\<forall>h. sse_phase (sse_run env evs) = Listening h \<longrightarrow>
        (\<exists>rest. sse_log (sse_step env (sse_run env evs) Sigint) =
           sse_log (sse_run env evs) @ Cleanup # rest) \<and>
        sse_phase (sse_step env (sse_run env evs) Sigint) =
          SseStopped (Exited (if cleanup_fails h = None then 0 else 1)) \<and>
        (cleanup_fails h = None \<longrightarrow>
           sse_log (sse_step env (sse_run env evs) Sigint) =
             sse_log (sse_run env evs) @ [Cleanup, ProcessExit 0])) \<and>
   (sse_phase (sse_run env evs) = Initialising \<longrightarrow>
        sse_phase (sse_step env (sse_run env evs) Sigint) = SseStopped (Exited 0) \<and>
        sse_log (sse_step env (sse_run env evs) Sigint) =
          sse_log (sse_run env evs) @ [ProcessExit 0]) \<and>
   (stdio_phase (stdio_run evs) = AwaitCreateServer \<or>
    (\<exists>h. stdio_phase (stdio_run evs) = AwaitConnect h) \<longrightarrow>
        stdio_phase (stdio_step (stdio_run evs) Sigint) = StdioStopped KilledBySignal \<and>
        stdio_log (stdio_step (stdio_run evs) Sigint) = stdio_log (stdio_run evs)) \<and>
   (\<forall>n. stdio_phase (stdio_run evs) = StdioStopped (Exited n) \<longrightarrow>
        (n = 0 \<and> (\<exists>pre. stdio_log (stdio_run evs) = pre @ [Cleanup, ServerClose, ProcessExit 0])) \<or>
        (n = 1 \<and>
           ((\<exists>pre e. stdio_log (stdio_run evs) =
                pre @ [ConsoleError ''Server error:'' e, ProcessExit 1]) \<or>
            (\<exists>pre e. stdio_log (stdio_run evs) = pre @ [UnhandledRejection e])))) \<and>
   (\<forall>n. sse_phase (sse_run env evs) = SseStopped (Exited n) \<longrightarrow>
        (n = 0 \<and>
           ((\<exists>pre. sse_log (sse_run env evs) = pre @ [Cleanup, ProcessExit 0]) \<or>
            (\<exists>pre. sse_log (sse_run env evs) = pre @ [Cleanup, ServerClose, ProcessExit 0]) \<or>
            cleanupFunction (sse_run env evs) = None)) \<or>
        (n = 1 \<and>
           ((\<exists>pre e. sse_log (sse_run env evs) =
                pre @ [ConsoleError ''Error in server initialization:'' e, ProcessExit 1]) \<or>
            (\<exists>pre e. sse_log (sse_run env evs) = pre @ [UnhandledRejection e]))))"
proof -
  have stdio_serving: "\<forall>h. stdio_phase (stdio_run evs) = Serving h \<longrightarrow>
        (\<exists>rest. stdio_log (stdio_step (stdio_run evs) Sigint) =
           stdio_log (stdio_run evs) @ Cleanup # rest) \<and>
        stdio_phase (stdio_step (stdio_run evs) Sigint) =
          StdioStopped
            (Exited (if cleanup_fails h = None \<and> close_fails h = None then 0 else 1)) \<and>
        (cleanup_fails h = None \<longrightarrow> close_fails h = None \<longrightarrow>
           stdio_log (stdio_step (stdio_run evs) Sigint) =
             stdio_log (stdio_run evs) @ [Cleanup, ServerClose, ProcessExit 0])"
    by (auto simp: main_on_sigint_def split: option.splits)
  have sse_listening: "\<forall>h. sse_phase (sse_run env evs) = Listening h \<longrightarrow>
        (\<exists>rest. sse_log (sse_step env (sse_run env evs) Sigint) =
           sse_log (sse_run env evs) @ Cleanup # rest) \<and>
        sse_phase (sse_step env (sse_run env evs) Sigint) =
          SseStopped (Exited (if cleanup_fails h = None then 0 else 1)) \<and>
        (cleanup_fails h = None \<longrightarrow>
           sse_log (sse_step env (sse_run env evs) Sigint) =
             sse_log (sse_run env evs) @ [Cleanup, ProcessExit 0])"
  proof (intro allI impI)
    fix h
    assume l: "sse_phase (sse_run env evs) = Listening h"
    then have "cleanupFunction (sse_run env evs) = Some h"
      using sse_globals_run [of env evs] by simp
    with l show "(\<exists>rest. sse_log (sse_step env (sse_run env evs) Sigint) =
           sse_log (sse_run env evs) @ Cleanup # rest) \<and>
        sse_phase (sse_step env (sse_run env evs) Sigint) =
          SseStopped (Exited (if cleanup_fails h = None then 0 else 1)) \<and>
        (cleanup_fails h = None \<longrightarrow>
           sse_log (sse_step env (sse_run env evs) Sigint) =
             sse_log (sse_run env evs) @ [Cleanup, ProcessExit 0])"
      by (auto simp: sse_on_sigint_def split: option.splits)
  qed
  have sse_initialising: "sse_phase (sse_run env evs) = Initialising \<longrightarrow>
        sse_phase (sse_step env (sse_run env evs) Sigint) = SseStopped (Exited 0) \<and>
        sse_log (sse_step env (sse_run env evs) Sigint) =
          sse_log (sse_run env evs) @ [ProcessExit 0]"
  proof
    assume i: "sse_phase (sse_run env evs) = Initialising"
    then have "cleanupFunction (sse_run env evs) = None"
      using sse_globals_run [of env evs] by simp
    with i show "sse_phase (sse_step env (sse_run env evs) Sigint) = SseStopped (Exited 0) \<and>
        sse_log (sse_step env (sse_run env evs) Sigint) =
          sse_log (sse_run env evs) @ [ProcessExit 0]"
      by (simp add: sse_on_sigint_def)
  qed
  have stdio_early: "stdio_phase (stdio_run evs) = AwaitCreateServer \<or>
    (\<exists>h. stdio_phase (stdio_run evs) = AwaitConnect h) \<longrightarrow>
        stdio_phase (stdio_step (stdio_run evs) Sigint) = StdioStopped KilledBySignal \<and>
        stdio_log (stdio_step (stdio_run evs) Sigint) = stdio_log (stdio_run evs)"
    by auto
  have stdio_exits: "\<forall>n. stdio_phase (stdio_run evs) = StdioStopped (Exited n) \<longrightarrow>
        (n = 0 \<and> (\<exists>pre. stdio_log (stdio_run evs) = pre @ [Cleanup, ServerClose, ProcessExit 0])) \<or>
        (n = 1 \<and>
           ((\<exists>pre e. stdio_log (stdio_run evs) =
                pre @ [ConsoleError ''Server error:'' e, ProcessExit 1]) \<or>
            (\<exists>pre e. stdio_log (stdio_run evs) = pre @ [UnhandledRejection e])))"
    using stdio_exit_run [of evs] by blast
  have sse_exits: "\<forall>n. sse_phase (sse_run env evs) = SseStopped (Exited n) \<longrightarrow>
        (n = 0 \<and>
           ((\<exists>pre. sse_log (sse_run env evs) = pre @ [Cleanup, ProcessExit 0]) \<or>
            (\<exists>pre. sse_log (sse_run env evs) = pre @ [Cleanup, ServerClose, ProcessExit 0]) \<or>
            cleanupFunction (sse_run env evs) = None)) \<or>
        (n = 1 \<and>
           ((\<exists>pre e. sse_log (sse_run env evs) =
                pre @ [ConsoleError ''Error in server initialization:'' e, ProcessExit 1]) \<or>
            (\<exists>pre e. sse_log (sse_run env evs) = pre @ [UnhandledRejection e])))"
    using sse_exit_run [of env evs] by blast
  from stdio_serving sse_listening sse_initialising stdio_early stdio_exits sse_exits
  show ?thesis by (intro conjI)
qed

theorem sigint_shutdown_witness:
  "stdio_phase (stdio_run [CreateServerSettled (Inr example_handle), ConnectSettled]) =
     Serving example_handle \<and>
   stdio_phase (stdio_run [CreateServerSettled (Inr example_handle), ConnectSettled, Sigint]) =
     StdioStopped (Exited 0) \<and>
   stdio_log (stdio_run [CreateServerSettled (Inr example_handle), ConnectSettled, Sigint]) =
     [ServerConnectStdio, OnSigint, Cleanup, ServerClose, ProcessExit 0] \<and>
   stdio_phase (stdio_run
       [CreateServerSettled (Inr (ServerHandle None None (Some (Error ''close failed'')))),
        ConnectSettled]) =
     Serving (ServerHandle None None (Some (Error ''close failed''))) \<and>
   stdio_phase (stdio_run
       [CreateServerSettled (Inr (ServerHandle None None (Some (Error ''close failed'')))),
        ConnectSettled, Sigint]) = StdioStopped (Exited 1) \<and>
   sse_phase (sse_run (example_env (Inl (AxiosError None ''down'')))
       [CreateServerSettled (Inr example_handle), GetSse 1]) = Listening example_handle \<and>
   sse_phase (sse_run (example_env (Inl (AxiosError None ''down'')))
       [CreateServerSettled (Inr example_handle), GetSse 1, Sigint]) = SseStopped (Exited 0) \<and>
   sse_log (sse_run (example_env (Inl (AxiosError None ''down'')))
       [CreateServerSettled (Inr example_handle), GetSse 1, Sigint]) =
     [ConsoleLog ''Got connection'', ServerConnectSse 1, Cleanup, ProcessExit 0] \<and>
   sse_phase (sse_run (example_env (Inl (AxiosError None ''down'')))
       [CreateServerDoes (OpenBackend ''files'')]) = Initialising \<and>
   sse_log (sse_run (example_env (Inl (AxiosError None ''down'')))
       [CreateServerDoes (OpenBackend ''files''), Sigint]) =
     [OpenBackend ''files'', ProcessExit 0] \<and>
   stdio_phase (stdio_run [CreateServerDoes (OpenBackend ''files'')]) = AwaitCreateServer \<and>
   stdio_phase (stdio_run [CreateServerDoes (OpenBackend ''files''), Sigint]) =
     StdioStopped KilledBySignal"
proof -
  let ?env = "example_env (Inl (AxiosError None ''down''))"
  let ?bad = "ServerHandle None None (Some (Error ''close failed''))"
  have a: "stdio_phase (stdio_run [CreateServerSettled (Inr example_handle), ConnectSettled]) =
      Serving example_handle"
    and la: "stdio_log (stdio_run [CreateServerSettled (Inr example_handle), ConnectSettled]) =
      [ServerConnectStdio, OnSigint]"
    by (simp_all add: stdio_run_def stdio_init_def example_handle_def)
  have a': "stdio_phase (stdio_run [CreateServerSettled (Inr ?bad), ConnectSettled]) =
      Serving ?bad"
    by (simp add: stdio_run_def stdio_init_def)
  have b: "sse_phase (sse_run ?env [CreateServerSettled (Inr example_handle), GetSse 1]) =
      Listening example_handle"
    and lb: "sse_log (sse_run ?env [CreateServerSettled (Inr example_handle), GetSse 1]) =
      [ConsoleLog ''Got connection'', ServerConnectSse 1]"
    by (simp_all add: sse_run_def sse_init_def get_sse_def example_handle_def)
  have c: "sse_phase (sse_run ?env [CreateServerDoes (OpenBackend ''files'')]) = Initialising"
    and lc: "sse_log (sse_run ?env [CreateServerDoes (OpenBackend ''files'')]) =
      [OpenBackend ''files'']"
    by (simp_all add: sse_run_def sse_init_def)
  have d: "stdio_phase (stdio_run [CreateServerDoes (OpenBackend ''files'')]) =
      AwaitCreateServer"
    by (simp add: stdio_run_def stdio_init_def)
  have f: "cleanup_fails example_handle = None" "close_fails example_handle = None"
    by (simp_all add: example_handle_def)
  have s1: "stdio_run [CreateServerSettled (Inr example_handle), ConnectSettled, Sigint] =
      stdio_step (stdio_run [CreateServerSettled (Inr example_handle), ConnectSettled]) Sigint"
    and s1': "stdio_run [CreateServerSettled (Inr ?bad), ConnectSettled, Sigint] =
      stdio_step (stdio_run [CreateServerSettled (Inr ?bad), ConnectSettled]) Sigint"
    and s4: "stdio_run [CreateServerDoes (OpenBackend ''files''), Sigint] =
      stdio_step (stdio_run [CreateServerDoes (OpenBackend ''files'')]) Sigint"
    by (simp_all add: stdio_run_def)
  have s2: "sse_run ?env [CreateServerSettled (Inr example_handle), GetSse 1, Sigint] =
      sse_step ?env (sse_run ?env [CreateServerSettled (Inr example_handle), GetSse 1]) Sigint"
    and s3: "sse_run ?env [CreateServerDoes (OpenBackend ''files''), Sigint] =
      sse_step ?env (sse_run ?env [CreateServerDoes (OpenBackend ''files'')]) Sigint"
    by (simp_all add: sse_run_def)
  from sigint_shutdown
    [where evs = "[CreateServerSettled (Inr example_handle), ConnectSettled]" and env = ?env]
    sigint_shutdown
    [where evs = "[CreateServerSettled (Inr ?bad), ConnectSettled]" and env = ?env]
    sigint_shutdown
    [where evs = "[CreateServerSettled (Inr example_handle), GetSse 1]" and env = ?env]
    sigint_shutdown
    [where evs = "[CreateServerDoes (OpenBackend ''files'')]" and env = ?env]
  show ?thesis
    unfolding s1 s1' s2 s3 s4 using a la a' b lb c lc d f by simp
qed

subsection \<open>The transport of the SSE bootstrap\<close>

text \<open>
  C8: the handlers of the SSE bootstrap share the one global \<^verbatim>\<open>transport\<close>. In every
  run that has registered the handlers (whatever came before \<^verbatim>\<open>createServer\<close>
  resolved) and is still listening, the global is the transport of the client whose
  \<^verbatim>\<open>GET /sse\<close> came last since then, a \<^verbatim>\<open>POST /message\<close> is handed to that transport
  and to no earlier one, a \<^verbatim>\<open>POST /message\<close> that comes before any \<^verbatim>\<open>GET /sse\<close>
  calls \<^verbatim>\<open>handlePostMessage\<close> on \<^verbatim>\<open>undefined\<close>, and every \<^verbatim>\<open>GET /sse\<close> assigns
  the global anew.
\<close>

theorem post_message_goes_to_last_connected:
  assumes "sse_phase (sse_run env pre) = Initialising"
    and "sse_phase (sse_run env (pre @ CreateServerSettled (Inr h) # reqs)) = Listening h'"
  shows
    "transport (sse_run env (pre @ CreateServerSettled (Inr h) # reqs)) = last_connected reqs \<and>
     sse_log (sse_step env (sse_run env (pre @ CreateServerSettled (Inr h) # reqs))
         (PostMessage m)) =
       sse_log (sse_run env (pre @ CreateServerSettled (Inr h) # reqs)) @
         [ConsoleLog ''Got message'',
          (case last_connected reqs of
             None \<Rightarrow> UnhandledRejection undefined_transport
           | Some r \<Rightarrow> HandlePostMessage r m)] \<and>
     transport (sse_step env (sse_run env (pre @ CreateServerSettled (Inr h) # reqs))
         (GetSse r)) = Some r"
proof -
  have s0: "sse_phase (sse_run env (pre @ [CreateServerSettled (Inr h)])) = Listening h"
    "transport (sse_run env (pre @ [CreateServerSettled (Inr h)])) = None"
    using assms(1) sse_initialising_run [OF assms(1)] by (simp_all add: sse_run_snoc)
  have run: "sse_run env (pre @ CreateServerSettled (Inr h) # reqs) =
      foldl (sse_step env) (sse_run env (pre @ [CreateServerSettled (Inr h)])) reqs"
    by (simp add: sse_run_def)
  have t: "transport (sse_run env (pre @ CreateServerSettled (Inr h) # reqs)) =
      last_connected reqs"
    using sse_listening_foldl [OF s0(1), of env reqs h'] assms(2) s0(2)
    unfolding run by (simp split: option.splits)
  from assms(2) t show ?thesis
    by (simp add: post_message_def get_sse_def split: option.splits)
qed


theorem post_message_goes_to_last_connected_witness:
  "sse_phase (sse_run (example_env (Inl (AxiosError None ''down''))) [GetSse 7]) = Initialising \<and>
   sse_phase (sse_run (example_env (Inl (AxiosError None ''down'')))
      [GetSse 7, CreateServerSettled (Inr example_handle), GetSse 1, PostMessage ''a'',
       GetSse 2]) = Listening example_handle \<and>
   sse_log (sse_run (example_env (Inl (AxiosError None ''down'')))
      [GetSse 7, CreateServerSettled (Inr example_handle), GetSse 1, PostMessage ''a'',
       GetSse 2, PostMessage ''b'']) =
     [ConsoleLog ''Got connection'', ServerConnectSse 1,
      ConsoleLog ''Got message'', HandlePostMessage 1 ''a'',
      ConsoleLog ''Got connection'', ServerConnectSse 2,
      ConsoleLog ''Got message'', HandlePostMessage 2 ''b''] \<and>
   sse_log (sse_run (example_env (Inl (AxiosError None ''down'')))
      [CreateServerSettled (Inr example_handle), PostMessage ''a'']) =
     [ConsoleLog ''Got message'', UnhandledRejection undefined_transport]"
proof -
  let ?env = "example_env (Inl (AxiosError None ''down''))"
  have p: "sse_phase (sse_run ?env [GetSse 7]) = Initialising"
    and p0: "sse_phase (sse_run ?env []) = Initialising"
    by (simp_all add: sse_run_def sse_init_def)
  have a: "sse_phase (sse_run ?env ([GetSse 7] @
      CreateServerSettled (Inr example_handle) # [GetSse 1, PostMessage ''a'', GetSse 2])) =
      Listening example_handle"
    and la: "sse_log (sse_run ?env ([GetSse 7] @
      CreateServerSettled (Inr example_handle) # [GetSse 1, PostMessage ''a'', GetSse 2])) =
      [ConsoleLog ''Got connection'', ServerConnectSse 1,
       ConsoleLog ''Got message'', HandlePostMessage 1 ''a'',
       ConsoleLog ''Got connection'', ServerConnectSse 2]"
    by (simp_all add: sse_run_def sse_init_def get_sse_def post_message_def example_handle_def)
  have b: "sse_phase (sse_run ?env ([] @ CreateServerSettled (Inr example_handle) # [])) =
      Listening example_handle"
    and lb: "sse_log (sse_run ?env ([] @ CreateServerSettled (Inr example_handle) # [])) = []"
    by (simp_all add: sse_run_def sse_init_def)
  have s1: "sse_run ?env
        [GetSse 7, CreateServerSettled (Inr example_handle), GetSse 1, PostMessage ''a'',
         GetSse 2, PostMessage ''b''] =
      sse_step ?env (sse_run ?env ([GetSse 7] @
        CreateServerSettled (Inr example_handle) # [GetSse 1, PostMessage ''a'', GetSse 2]))
        (PostMessage ''b'')"
    and s2: "sse_run ?env [CreateServerSettled (Inr example_handle), PostMessage ''a''] =
      sse_step ?env (sse_run ?env ([] @ CreateServerSettled (Inr example_handle) # []))
        (PostMessage ''a'')"
    by (simp_all add: sse_run_def)
  from post_message_goes_to_last_connected [OF p a, of "''b''"]
    post_message_goes_to_last_connected [OF p0 b, of "''a''"]
  show ?thesis
    unfolding s1 s2 using p a la lb by simp
qed

subsection \<open>A resolver failure at startup\<close>

text \<open>
  C6: when the API key is set and the resolver call fails, both bootstraps end with exit
  code 1 after logging the error; the log holds the request to the resolver, the two
  error lines and the exit, so no Backend Connection is opened, the upstream transport
  is never connected, no listener is registered and no global is assigned.
\<close>

theorem resolver_failure_is_fatal:
  assumes "env_MCP_API_KEY env = Some k" and "k \<noteq> []"
    and "fst (authenticateAndGetServers env k) = Inl e"
  shows
    "main env h =
       \<lparr>stdio_phase = StdioStopped (Exited 1),
        stdio_log =
          [HttpGet (CLIENT_API_URL env @ ''/servers'') (''Bearer '' @ k),
           ConsoleError ''Auth error with API key:'' e,
           ConsoleError ''Server error:'' e, ProcessExit 1]\<rparr> \<and>
     initServer env h =
       \<lparr>sse_phase = SseStopped (Exited 1), transport = None, cleanupFunction = None,
        onclose_set = False,
        sse_log =
          [HttpGet (CLIENT_API_URL env @ ''/servers'') (''Bearer '' @ k),
           ConsoleError ''Auth error with API key:'' e,
           ConsoleError ''Error in server initialization:'' e, ProcessExit 1]\<rparr> \<and>
     (\<forall>b. OpenBackend b \<notin> set (stdio_log (main env h))) \<and>
     (\<forall>b. OpenBackend b \<notin> set (sse_log (initServer env h)))"
proof -
  have a: "authenticateAndGetServers env k =
      (Inl e, [HttpGet (CLIENT_API_URL env @ ''/servers'') (''Bearer '' @ k)])"
    using assms(3) by (simp add: authenticateAndGetServers_def Let_def)
  have l: "loadConfig env (Some k) =
      (Inl e, [HttpGet (CLIENT_API_URL env @ ''/servers'') (''Bearer '' @ k),
               ConsoleError ''Auth error with API key:'' e])"
    using assms(2) a by (simp add: loadConfig_def)
  have c: "createServer env h (env_MCP_API_KEY env) =
      (Inl e, [HttpGet (CLIENT_API_URL env @ ''/servers'') (''Bearer '' @ k),
               ConsoleError ''Auth error with API key:'' e])"
    using assms(1) l by (simp add: createServer_def)
  have m: "main env h =
       \<lparr>stdio_phase = StdioStopped (Exited 1),
        stdio_log =
          [HttpGet (CLIENT_API_URL env @ ''/servers'') (''Bearer '' @ k),
           ConsoleError ''Auth error with API key:'' e,
           ConsoleError ''Server error:'' e, ProcessExit 1]\<rparr>"
    unfolding main_def c
    by (simp add: stdio_run_def stdio_pending_effects stdio_init_def main_catch_def)
  have i: "initServer env h =
       \<lparr>sse_phase = SseStopped (Exited 1), transport = None, cleanupFunction = None,
        onclose_set = False,
        sse_log =
          [HttpGet (CLIENT_API_URL env @ ''/servers'') (''Bearer '' @ k),
           ConsoleError ''Auth error with API key:'' e,
           ConsoleError ''Error in server initialization:'' e, ProcessExit 1]\<rparr>"
    unfolding initServer_def c by (simp add: sse_run_def sse_pending_effects sse_init_def)
  show ?thesis
    unfolding m i by simp
qed

theorem resolver_failure_is_fatal_witness:
  "env_MCP_API_KEY (example_env (Inl (AxiosError (Some 401) ''Unauthorized''))) = Some ''key-1'' \<and>
   ''key-1'' \<noteq> [] \<and>
   fst (authenticateAndGetServers (example_env (Inl (AxiosError (Some 401) ''Unauthorized'')))
      ''key-1'') = Inl (Error ''Invalid API key'') \<and>
   main (example_env (Inl (AxiosError (Some 401) ''Unauthorized''))) example_handle =
     \<lparr>stdio_phase = StdioStopped (Exited 1),
      stdio_log =
        [HttpGet ''http://localhost:8000/api/servers'' ''Bearer key-1'',
         ConsoleError ''Auth error with API key:'' (Error ''Invalid API key''),
         ConsoleError ''Server error:'' (Error ''Invalid API key''), ProcessExit 1]\<rparr>"
proof -
  let ?env = "example_env (Inl (AxiosError (Some 401) ''Unauthorized''))"
  have k: "env_MCP_API_KEY ?env = Some ''key-1''"
    by (simp add: example_env_def)
  have n: "''key-1'' \<noteq> []" by simp
  have r: "fst (authenticateAndGetServers ?env ''key-1'') = Inl (Error ''Invalid API key'')"
    by (simp add: authenticateAndGetServers_def example_env_request Let_def del: append.simps)
  have u: "CLIENT_API_URL ?env = ''http://localhost:8000/api''"
    by (simp add: CLIENT_API_URL_def js_or_def example_env_def)
  from resolver_failure_is_fatal [OF k n r, of example_handle]
  show ?thesis
    using k r u by simp
qed

subsection \<open>The aggregate catalog\<close>

lemma splitId_composeId: "splitId (composeId b t) = (b, t)"
  by (simp add: splitId_def composeId_def)

lemma composeId_inject: "composeId b t = composeId b' t' \<longleftrightarrow> b = b' \<and> t = t'"
  by (simp add: composeId_def)

lemma set_insertEntry: "set (insertEntry e c) \<subseteq> insert e (set c)"
  by (induction c) auto

lemma ids_insertEntry:
  "set (map aggregatedId (insertEntry e c)) = insert (aggregatedId e) (set (map aggregatedId c))"
  by (induction c) auto

lemma distinct_insertEntry:
  "distinct (map aggregatedId c) \<Longrightarrow> distinct (map aggregatedId (insertEntry e c))"
proof (induction c)
  case Nil
  then show ?case by simp
next
  case (Cons x c)
  then show ?case
    using ids_insertEntry [of e c] by (auto simp del: set_map)
qed

lemma distinct_prune:
  "distinct (map aggregatedId c) \<Longrightarrow> distinct (map aggregatedId (prune b c))"
  by (simp add: prune_def distinct_map_filter)

lemma distinct_foldl_insert:
  "distinct (map aggregatedId c) \<Longrightarrow>
   distinct (map aggregatedId (foldl (\<lambda>acc cap. insertEntry (mkEntry b cap) acc) c caps))"
  by (induction caps arbitrary: c) (simp_all add: distinct_insertEntry)

lemma distinct_ownEntries: "distinct (map aggregatedId (ownEntries b caps))"
  by (simp add: ownEntries_def distinct_foldl_insert)

lemma set_foldl_insert:
  "set (foldl (\<lambda>acc cap. insertEntry (mkEntry b cap) acc) c caps) \<subseteq> set c \<union> mkEntry b ` set caps"
proof (induction caps arbitrary: c)
  case Nil
  show ?case by simp
next
  case (Cons cap caps)
  from Cons.IH [of "insertEntry (mkEntry b cap) c"] set_insertEntry [of "mkEntry b cap" c]
  show ?case by auto
qed

lemma set_ownEntries: "set (ownEntries b caps) \<subseteq> mkEntry b ` set caps"
  using set_foldl_insert [of b "[]" caps] by (simp add: ownEntries_def)

lemma ids_foldl_insert:
  "set (map aggregatedId (foldl (\<lambda>acc cap. insertEntry (mkEntry b cap) acc) c caps)) =
     set (map aggregatedId c) \<union> (\<lambda>cap. composeId b (cap_originalId cap)) ` set caps"
proof (induction caps arbitrary: c)
  case Nil
  show ?case by simp
next
  case (Cons cap caps)
  have "aggregatedId (mkEntry b cap) = composeId b (cap_originalId cap)"
    by (simp add: mkEntry_def)
  with Cons.IH [of "insertEntry (mkEntry b cap) c"] ids_insertEntry [of "mkEntry b cap" c]
  show ?case by (auto simp del: set_map)
qed

lemma ids_ownEntries:
  "aggregatedId ` set (ownEntries b caps) = (\<lambda>cap. composeId b (cap_originalId cap)) ` set caps"
  using ids_foldl_insert [of b "[]" caps] by (simp add: ownEntries_def)

lemma composed_mkEntry: "composed (mkEntry b cap)"
  by (simp add: composed_def mkEntry_def)

lemma owner_ownEntries:
  assumes "e \<in> set (ownEntries b caps)"
  shows "ownerBackend e = b \<and> composed e"
proof -
  from assms set_ownEntries [of b caps] obtain cap where e: "e = mkEntry b cap" by auto
  have "ownerBackend (mkEntry b cap) = b" by (simp add: mkEntry_def)
  with e composed_mkEntry [of b cap] show ?thesis by simp
qed

text \<open>
  The entries of the other backends in a merge: the catalog without the entries of the
  merged backend, in their order.
\<close>

lemma others_split:
  "takeWhile (\<lambda>e. ownerBackend e \<noteq> b) c @ prune b (dropWhile (\<lambda>e. ownerBackend e \<noteq> b) c) =
     prune b c"
  by (induction c) (simp_all add: prune_def)

lemma set_mergeBackend:
  "set (mergeBackend b caps c) = set (prune b c) \<union> set (ownEntries b caps)"
proof -
  have "set (mergeBackend b caps c) =
      set (takeWhile (\<lambda>e. ownerBackend e \<noteq> b) c @
           prune b (dropWhile (\<lambda>e. ownerBackend e \<noteq> b) c)) \<union> set (ownEntries b caps)"
    by (auto simp: mergeBackend_def)
  then show ?thesis by (simp only: others_split)
qed

lemma filter_takeWhile_same: "filter P (takeWhile P xs) = takeWhile P xs"
  by (induction xs) simp_all

lemma mergeBackend_frame:
  "filter (\<lambda>x. ownerBackend x \<noteq> b) (mergeBackend b caps c) = prune b c"
proof -
  have "filter (\<lambda>x. ownerBackend x \<noteq> b) (ownEntries b caps) = []"
    using owner_ownEntries [of _ b caps] by (auto simp: filter_empty_conv)
  then have "filter (\<lambda>x. ownerBackend x \<noteq> b) (mergeBackend b caps c) =
      takeWhile (\<lambda>e. ownerBackend e \<noteq> b) c @
      prune b (dropWhile (\<lambda>e. ownerBackend e \<noteq> b) c)"
    by (simp add: mergeBackend_def filter_takeWhile_same prune_def)
  then show ?thesis by (simp only: others_split)
qed

lemma mergeBackend_owned:
  "filter (\<lambda>x. ownerBackend x = b) (mergeBackend b caps c) = ownEntries b caps"
proof -
  have 1: "filter (\<lambda>x. ownerBackend x = b) (ownEntries b caps) = ownEntries b caps"
    using owner_ownEntries [of _ b caps] by (auto simp: filter_id_conv)
  have 2: "filter (\<lambda>x. ownerBackend x = b) (takeWhile (\<lambda>e. ownerBackend e \<noteq> b) c) = []"
    by (auto simp: filter_empty_conv dest: set_takeWhileD)
  show ?thesis
    by (simp add: mergeBackend_def 1 2 prune_def filter_empty_conv)
qed

lemma mergeBackend_other_owner:
  assumes "b' \<noteq> b"
  shows "filter (\<lambda>x. ownerBackend x = b') (mergeBackend b caps c) =
         filter (\<lambda>x. ownerBackend x = b') c"
proof -
  have "filter (\<lambda>x. ownerBackend x = b') (mergeBackend b caps c) =
      filter (\<lambda>x. ownerBackend x = b') (filter (\<lambda>x. ownerBackend x \<noteq> b) (mergeBackend b caps c))"
    using assms by (auto intro: filter_cong)
  also have "\<dots> = filter (\<lambda>x. ownerBackend x = b') (prune b c)"
    by (simp only: mergeBackend_frame)
  also have "\<dots> = filter (\<lambda>x. ownerBackend x = b') c"
    using assms by (auto simp: prune_def intro: filter_cong)
  finally show ?thesis .
qed

lemma distinct_insert_block:
  assumes "distinct (map f (xs @ zs))" and "distinct (map f ys)"
    and "f ` set ys \<inter> f ` set (xs @ zs) = {}"
  shows "distinct (map f (xs @ ys @ zs))"
  using assms by auto

lemma distinct_mergeBackend:
  assumes "distinct (map aggregatedId c)" and "\<forall>e \<in> set c. composed e"
  shows "distinct (map aggregatedId (mergeBackend b caps c))"
proof -
  let ?xs = "takeWhile (\<lambda>e. ownerBackend e \<noteq> b) c"
  let ?zs = "prune b (dropWhile (\<lambda>e. ownerBackend e \<noteq> b) c)"
  have others: "?xs @ ?zs = prune b c" by (rule others_split)
  have 1: "distinct (map aggregatedId (?xs @ ?zs))"
    unfolding others by (rule distinct_prune [OF assms(1)])
  have "aggregatedId x \<noteq> aggregatedId y"
    if "x \<in> set (ownEntries b caps)" and "y \<in> set (prune b c)" for x y
  proof -
    from that(1) have "aggregatedId x = composeId b (originalId x)"
      using owner_ownEntries [of x b caps] by (simp add: composed_def)
    moreover from that(2) assms(2)
    have "aggregatedId y = composeId (ownerBackend y) (originalId y)" and "ownerBackend y \<noteq> b"
      by (auto simp: prune_def composed_def)
    ultimately show ?thesis by (simp add: composeId_inject)
  qed
  then have 2: "aggregatedId ` set (ownEntries b caps) \<inter> aggregatedId ` set (?xs @ ?zs) = {}"
    unfolding others by auto
  from distinct_insert_block [OF 1 distinct_ownEntries 2]
  show ?thesis by (simp add: mergeBackend_def)
qed

lemma composed_apply_op:
  assumes "\<forall>e \<in> set c. composed e"
  shows "\<forall>e \<in> set (apply_op c x). composed e"
proof (cases x)
  case (Merge b caps)
  with assms show ?thesis
    using owner_ownEntries [of _ b caps] by (auto simp: set_mergeBackend prune_def)
next
  case (Prune b)
  with assms show ?thesis by (simp add: prune_def)
qed

lemma run_ops_snoc: "run_ops (ops @ [x]) = apply_op (run_ops ops) x"
  by (simp add: run_ops_def)

lemma composed_run_ops: "\<forall>e \<in> set (run_ops ops). composed e"
proof (induction ops rule: rev_induct)
  case Nil
  show ?case by (simp add: run_ops_def)
next
  case (snoc x ops)
  from composed_apply_op [OF snoc.IH] show ?case by (simp only: run_ops_snoc)
qed

lemma distinct_run_ops: "distinct (map aggregatedId (run_ops ops))"
proof (induction ops rule: rev_induct)
  case Nil
  show ?case by (simp add: run_ops_def)
next
  case (snoc x ops)
  show ?case
  proof (cases x)
    case (Merge b caps)
    with distinct_mergeBackend [OF snoc.IH composed_run_ops] show ?thesis
      by (simp add: run_ops_snoc)
  next
    case (Prune b)
    with distinct_prune [OF snoc.IH] show ?thesis
      by (simp add: run_ops_snoc)
  qed
qed

text \<open>
  An update of one backend leaves the entries of every other backend as they were, in
  their order.
\<close>

lemma apply_op_other_owner:
  assumes "op_backend x \<noteq> b"
  shows "filter (\<lambda>e. ownerBackend e = b) (apply_op c x) = filter (\<lambda>e. ownerBackend e = b) c"
proof (cases x)
  case (Merge b' caps)
  with assms mergeBackend_other_owner [of b b' caps c] show ?thesis by simp
next
  case (Prune b')
  with assms show ?thesis by (auto simp: prune_def intro: filter_cong)
qed

lemma foldl_apply_op_other_owner:
  assumes "\<forall>x \<in> set later. op_backend x \<noteq> b"
  shows "filter (\<lambda>e. ownerBackend e = b) (foldl apply_op c later) =
         filter (\<lambda>e. ownerBackend e = b) c"
  using assms
proof (induction later arbitrary: c)
  case Nil
  show ?case by simp
next
  case (Cons x later)
  then show ?case by (simp add: apply_op_other_owner)
qed

lemma lookup_None_iff: "lookupEntry c aid = None \<longleftrightarrow> aid \<notin> aggregatedId ` set c"
  by (auto simp: lookupEntry_def find_None_iff)

lemma lookup_Some_distinct:
  assumes "distinct (map aggregatedId c)"
  shows "lookupEntry c aid = Some e \<longleftrightarrow> e \<in> set c \<and> aggregatedId e = aid"
  using assms by (induction c) (auto simp: lookupEntry_def)

lemma lookup_prune:
  assumes "distinct (map aggregatedId c)" and "lookupEntry c aid = Some e"
  shows "lookupEntry (prune b c) aid = (if ownerBackend e = b then None else Some e)"
proof (cases "ownerBackend e = b")
  case True
  have "aid \<notin> aggregatedId ` set (prune b c)"
  proof
    assume "aid \<in> aggregatedId ` set (prune b c)"
    then obtain x where x: "x \<in> set c" "ownerBackend x \<noteq> b" "aggregatedId x = aid"
      by (auto simp: prune_def)
    with assms have "x = e"
      by (auto simp: lookup_Some_distinct distinct_map dest: inj_onD)
    with x(2) True show False by simp
  qed
  with True show ?thesis by (simp add: lookup_None_iff)
next
  case False
  from assms have "e \<in> set c" "aggregatedId e = aid"
    by (simp_all add: lookup_Some_distinct)
  with False have "e \<in> set (prune b c) \<and> aggregatedId e = aid"
    by (simp add: prune_def)
  with False show ?thesis
    using lookup_Some_distinct [OF distinct_prune [OF assms(1)], of b aid e] by simp
qed

text \<open>
  In a session the catalog has an entry for every capability of the list a backend
  merged last, as long as the backend has not been pruned since, and the entry holds
  the pair the aggregatedId was composed of.
\<close>

lemma lookup_advertised:
  assumes "t \<in> cap_originalId ` set caps" and "\<forall>x \<in> set later. op_backend x \<noteq> b"
  shows "\<exists>e. lookupEntry (run_ops (ops @ Merge b caps # later)) (composeId b t) = Some e \<and>
             ownerBackend e = b \<and> originalId e = t"
proof -
  let ?c = "run_ops (ops @ Merge b caps # later)"
  have run: "?c = foldl apply_op (mergeBackend b caps (run_ops ops)) later"
    by (simp add: run_ops_def)
  have "filter (\<lambda>e. ownerBackend e = b) ?c = ownEntries b caps"
    unfolding run by (simp add: foldl_apply_op_other_owner [OF assms(2)] mergeBackend_owned)
  then have own: "set (ownEntries b caps) \<subseteq> set ?c"
    by (metis filter_is_subset)
  from assms(1) have "composeId b t \<in> aggregatedId ` set (ownEntries b caps)"
    unfolding ids_ownEntries by auto
  then obtain e where e: "e \<in> set (ownEntries b caps)" "aggregatedId e = composeId b t"
    by auto
  with own have "lookupEntry ?c (composeId b t) = Some e"
    by (auto simp: lookup_Some_distinct [OF distinct_run_ops])
  moreover from owner_ownEntries [OF e(1)]
  have o: "ownerBackend e = b" and "composed e" by simp_all
  then have "composeId b (originalId e) = composeId b t"
    using e(2) by (metis composed_def)
  then have "originalId e = t" by (simp add: composeId_inject)
  ultimately show ?thesis using o by blast
qed

text \<open>
  C4: pruning a backend removes the entries it owns and no other entry; the entries of
  every other backend stay, in the order they had, in the whole catalog, in the list of
  each kind and for each backend; the reverse index loses the pruned backend and keeps
  every other; in a catalog of a session the entry found for an aggregatedId is the
  same after the prune unless the pruned backend owned it.
\<close>

theorem prune_removes_exactly_owned:
  "set (prune b c) = {e \<in> set c. ownerBackend e \<noteq> b} \<and>
   filter (\<lambda>e. ownerBackend e = b) (prune b c) = [] \<and>
   filter (\<lambda>e. ownerBackend e \<noteq> b) (prune b c) = filter (\<lambda>e. ownerBackend e \<noteq> b) c \<and>
   (\<forall>b'. b' \<noteq> b \<longrightarrow>
      filter (\<lambda>e. ownerBackend e = b') (prune b c) = filter (\<lambda>e. ownerBackend e = b') c) \<and>
   subseq (prune b c) c \<and>
   (\<forall>k. listAll k (prune b c) = filter (\<lambda>e. ownerBackend e \<noteq> b) (listAll k c)) \<and>
   reverseIndex (prune b c) b = {} \<and>
   (\<forall>b'. b' \<noteq> b \<longrightarrow> reverseIndex (prune b c) b' = reverseIndex c b') \<and>
   (\<forall>aid e. lookupEntry (run_ops ops) aid = Some e \<longrightarrow>
      lookupEntry (prune b (run_ops ops)) aid = (if ownerBackend e = b then None else Some e))"
proof (intro conjI allI impI)
  show "set (prune b c) = {e \<in> set c. ownerBackend e \<noteq> b}"
    by (auto simp: prune_def)
  show "filter (\<lambda>e. ownerBackend e = b) (prune b c) = []"
    by (simp add: prune_def filter_empty_conv)
  show "filter (\<lambda>e. ownerBackend e \<noteq> b) (prune b c) = filter (\<lambda>e. ownerBackend e \<noteq> b) c"
    by (simp add: prune_def)
  show "subseq (prune b c) c"
    by (simp add: prune_def)
next
  fix b' :: string
  assume "b' \<noteq> b"
  then show "filter (\<lambda>e. ownerBackend e = b') (prune b c) = filter (\<lambda>e. ownerBackend e = b') c"
    by (auto simp: prune_def intro: filter_cong)
next
  fix k
  show "listAll k (prune b c) = filter (\<lambda>e. ownerBackend e \<noteq> b) (listAll k c)"
    by (simp add: listAll_def prune_def conj_commute)
next
  show "reverseIndex (prune b c) b = {}"
    by (simp add: reverseIndex_def prune_def filter_empty_conv)
next
  fix b' :: string
  assume "b' \<noteq> b"
  then have "filter (\<lambda>e. ownerBackend e = b') (prune b c) = filter (\<lambda>e. ownerBackend e = b') c"
    by (auto simp: prune_def intro: filter_cong)
  then show "reverseIndex (prune b c) b' = reverseIndex c b'"
    by (simp add: reverseIndex_def)
next
  fix aid e
  assume "lookupEntry (run_ops ops) aid = Some e"
  from lookup_prune [OF distinct_run_ops this]
  show "lookupEntry (prune b (run_ops ops)) aid = (if ownerBackend e = b then None else Some e)" .
qed

theorem prune_removes_exactly_owned_witness:
  "map aggregatedId
     (run_ops [Merge ''files'' [Capability ''read'' Tool ''r''],
               Merge ''web'' [Capability ''get'' Tool ''g''],
               Merge ''mail'' [Capability ''send'' Tool ''s'']]) =
     [composeId ''files'' ''read'', composeId ''web'' ''get'', composeId ''mail'' ''send''] \<and>
   map aggregatedId
     (prune ''web''
        (run_ops [Merge ''files'' [Capability ''read'' Tool ''r''],
                  Merge ''web'' [Capability ''get'' Tool ''g''],
                  Merge ''mail'' [Capability ''send'' Tool ''s'']])) =
     [composeId ''files'' ''read'', composeId ''mail'' ''send''] \<and>
   ''files'' \<noteq> ''web'' \<and>
   filter (\<lambda>e. ownerBackend e = ''files'')
     (prune ''web''
        (run_ops [Merge ''files'' [Capability ''read'' Tool ''r''],
                  Merge ''web'' [Capability ''get'' Tool ''g''],
                  Merge ''mail'' [Capability ''send'' Tool ''s'']])) =
     [mkEntry ''files'' (Capability ''read'' Tool ''r'')]"
proof -
  have c: "run_ops [Merge ''files'' [Capability ''read'' Tool ''r''],
                    Merge ''web'' [Capability ''get'' Tool ''g''],
                    Merge ''mail'' [Capability ''send'' Tool ''s'']] =
      [mkEntry ''files'' (Capability ''read'' Tool ''r''),
       mkEntry ''web'' (Capability ''get'' Tool ''g''),
       mkEntry ''mail'' (Capability ''send'' Tool ''s'')]"
    by (simp add: run_ops_def mergeBackend_def ownEntries_def prune_def mkEntry_def composeId_def)
  have n: "''files'' \<noteq> ''web''" by simp
  from prune_removes_exactly_owned
    [where b = "''web''"
       and c = "[mkEntry ''files'' (Capability ''read'' Tool ''r''),
                 mkEntry ''web'' (Capability ''get'' Tool ''g''),
                 mkEntry ''mail'' (Capability ''send'' Tool ''s'')]"
       and ops = "[]", THEN conjunct2, THEN conjunct2, THEN conjunct2, THEN conjunct1,
     rule_format, OF n]
  show ?thesis
    unfolding c by (simp add: prune_def mkEntry_def composeId_def)
qed

subsection \<open>The request router\<close>

text \<open>
  C2: when a backend advertises a tool (the tool is in the list the backend merged
  last, and the backend has not been pruned since, whatever the session did before and
  whatever it did to other backends afterwards), \<open>handleInvoke\<close> on the aggregatedId
  composed of the two forwards one call, to the connection of that backend and to that
  tool, with the payload as it came; a result comes back as the backend gave it, and a
  failure comes back with its code and message and without the name of the backend.
\<close>

theorem handleInvoke_forwards:
  assumes "t \<in> cap_originalId ` set caps" and "\<forall>x \<in> set later. op_backend x \<noteq> b"
  shows
    "handleInvoke (run_ops (ops @ Merge b caps # later)) conns (composeId b t) args =
       (translate (conns b t args), [(b, t, args)]) \<and>
     (\<forall>r. conns b t args = Result r \<longrightarrow>
        fst (handleInvoke (run_ops (ops @ Merge b caps # later)) conns (composeId b t) args) =
          Inr r) \<and>
     (\<forall>n code msg. conns b t args = Failure (BackendError n code msg) \<longrightarrow>
        fst (handleInvoke (run_ops (ops @ Merge b caps # later)) conns (composeId b t) args) =
          Inl (UpstreamError code msg))"
proof -
  from lookup_advertised [OF assms, of ops]
  obtain e where "lookupEntry (run_ops (ops @ Merge b caps # later)) (composeId b t) = Some e"
    by blast
  then have "handleInvoke (run_ops (ops @ Merge b caps # later)) conns (composeId b t) args =
      (translate (conns b t args), [(b, t, args)])"
    by (simp add: handleInvoke_def splitId_composeId)
  then show ?thesis by simp
qed

theorem handleInvoke_forwards_witness:
  "''read'' \<in> cap_originalId ` set [Capability ''read'' Tool ''r'', Capability ''write'' Tool ''w''] \<and>
   map op_backend [Merge ''mail'' [Capability ''send'' Tool ''s''], Prune ''web''] =
     [''mail'', ''web''] \<and>
   handleInvoke
     (run_ops
        [Merge ''web'' [Capability ''read'' Tool ''fetch''],
         Merge ''files'' [Capability ''read'' Tool ''r'', Capability ''write'' Tool ''w''],
         Merge ''mail'' [Capability ''send'' Tool ''s''], Prune ''web''])
     example_conns (composeId ''files'' ''read'') ''/etc/hosts'' =
     (Inr ''contents of /etc/hosts'', [(''files'', ''read'', ''/etc/hosts'')]) \<and>
   handleInvoke
     (run_ops
        [Merge ''web'' [Capability ''read'' Tool ''fetch''],
         Merge ''files'' [Capability ''read'' Tool ''r'', Capability ''write'' Tool ''w''],
         Merge ''mail'' [Capability ''send'' Tool ''s''], Prune ''web''])
     example_conns (composeId ''files'' ''write'') ''/etc/hosts'' =
     (Inl (UpstreamError (-32000) ''read-only''), [(''files'', ''write'', ''/etc/hosts'')]) \<and>
   handleInvoke
     (run_ops
        [Merge ''web'' [Capability ''read'' Tool ''fetch''],
         Merge ''files'' [Capability ''read'' Tool ''r'', Capability ''write'' Tool ''w'']])
     example_conns (composeId ''web'' ''read'') ''/etc/hosts'' =
     (Inr ''web answers read /etc/hosts'', [(''web'', ''read'', ''/etc/hosts'')]) \<and>
   handleInvoke
     (run_ops
        [Merge ''a'' [Capability ''b::c'' Tool ''search''],
         Merge ''a::b'' [Capability ''c'' Tool ''fetch'']])
     example_conns (composeId ''a'' ''b::c'') ''x'' =
     (Inr ''a answers b::c x'', [(''a'', ''b::c'', ''x'')])"
proof -
  let ?files = "[Capability ''read'' Tool ''r'', Capability ''write'' Tool ''w'']"
  have 1: "''read'' \<in> cap_originalId ` set ?files"
    and 2: "''write'' \<in> cap_originalId ` set ?files"
    and 3: "''read'' \<in> cap_originalId ` set [Capability ''read'' Tool ''fetch'']"
    and 4: "''b::c'' \<in> cap_originalId ` set [Capability ''b::c'' Tool ''search'']"
    by simp_all
  have l1: "\<forall>x \<in> set [Merge ''mail'' [Capability ''send'' Tool ''s''], Prune ''web''].
      op_backend x \<noteq> ''files''"
    and l2: "\<forall>x \<in> set [Merge ''files'' ?files]. op_backend x \<noteq> ''web''"
    and l3: "\<forall>x \<in> set [Merge ''a::b'' [Capability ''c'' Tool ''fetch'']]. op_backend x \<noteq> ''a''"
    by simp_all
  from handleInvoke_forwards
      [OF 1 l1, of "[Merge ''web'' [Capability ''read'' Tool ''fetch'']]" example_conns
        "''/etc/hosts''"]
    handleInvoke_forwards
      [OF 2 l1, of "[Merge ''web'' [Capability ''read'' Tool ''fetch'']]" example_conns
        "''/etc/hosts''"]
    handleInvoke_forwards [OF 3 l2, of "[]" example_conns "''/etc/hosts''"]
    handleInvoke_forwards [OF 4 l3, of "[]" example_conns "''x''"]
  show ?thesis
    using 1 by (simp add: example_conns_def example_backend_def)
qed

text \<open>
  C3: \<open>handleInvoke\<close> on an aggregatedId that the catalog does not have returns
  \<open>UnknownCapability\<close> and forwards no call; so it does, in a catalog of a session, for
  an aggregatedId whose owner has just been pruned. The function is total: it returns.
\<close>

theorem handleInvoke_unknown:
  "(lookupEntry c aid = None \<longrightarrow>
      handleInvoke c conns aid payload = (Inl UnknownCapability, [])) \<and>
   (\<forall>e. lookupEntry (run_ops ops) aid = Some e \<longrightarrow>
      lookupEntry (prune (ownerBackend e) (run_ops ops)) aid = None \<and>
      handleInvoke (prune (ownerBackend e) (run_ops ops)) conns aid payload =
        (Inl UnknownCapability, []))"
proof (intro conjI allI impI)
  assume "lookupEntry c aid = None"
  then show "handleInvoke c conns aid payload = (Inl UnknownCapability, [])"
    by (simp add: handleInvoke_def split: prod.splits)
next
  fix e
  assume "lookupEntry (run_ops ops) aid = Some e"
  from lookup_prune [OF distinct_run_ops this, of "ownerBackend e"]
  show gone: "lookupEntry (prune (ownerBackend e) (run_ops ops)) aid = None" by simp
  then show "handleInvoke (prune (ownerBackend e) (run_ops ops)) conns aid payload =
      (Inl UnknownCapability, [])"
    by (simp add: handleInvoke_def split: prod.splits)
qed

theorem handleInvoke_unknown_witness:
  "lookupEntry [] (composeId ''files'' ''read'') = None \<and>
   handleInvoke [] example_conns (composeId ''files'' ''read'') ''/etc/hosts'' =
     (Inl UnknownCapability, []) \<and>
   map_option ownerBackend
     (lookupEntry (run_ops [Merge ''files'' [Capability ''read'' Tool ''r'']])
        (composeId ''files'' ''read'')) =
     Some ''files'' \<and>
   handleInvoke (prune ''files'' (run_ops [Merge ''files'' [Capability ''read'' Tool ''r'']]))
     example_conns (composeId ''files'' ''read'') ''/etc/hosts'' =
     (Inl UnknownCapability, [])"
proof -
  have 1: "lookupEntry [] (composeId ''files'' ''read'') = None"
    by (simp add: lookupEntry_def)
  have 2: "lookupEntry (run_ops [Merge ''files'' [Capability ''read'' Tool ''r'']])
        (composeId ''files'' ''read'') =
      Some (mkEntry ''files'' (Capability ''read'' Tool ''r''))"
    by (simp add: run_ops_def mergeBackend_def ownEntries_def prune_def lookupEntry_def
        mkEntry_def composeId_def)
  have 3: "ownerBackend (mkEntry ''files'' (Capability ''read'' Tool ''r'')) = ''files''"
    by (simp add: mkEntry_def)
  from handleInvoke_unknown
    [of "[]" "composeId ''files'' ''read''" example_conns "''/etc/hosts''"
      "[Merge ''files'' [Capability ''read'' Tool ''r'']]"]
  show ?thesis
    using 1 2 3 by simp
qed

end
